theory Spec2Isabelle
  imports Complex_Main "HOL-Library.List_Lexorder" "HOL-Library.Char_ord" "HOL-Library.Log_Nat"
begin

section \<open>Values of the table\<close>

text \<open>
  The dashboard keeps its data in a pandas DataFrame. A float64 entry is modelled by
  \<open>amount\<close>: a finite value (the real number that the binary64 stands for), the two
  infinities, or NaN. Comparisons follow IEEE 754: every comparison with NaN is false.
\<close>

datatype amount = Fin real | PInf | NInf | NaN

fun amount_less :: "amount \<Rightarrow> amount \<Rightarrow> bool" where
  "amount_less NaN _ = False"
| "amount_less _ NaN = False"
| "amount_less (Fin a) (Fin b) = (a < b)"
| "amount_less _ NInf = False"
| "amount_less NInf _ = True"
| "amount_less PInf _ = False"
| "amount_less (Fin a) PInf = True"

fun amount_le :: "amount \<Rightarrow> amount \<Rightarrow> bool" where
  "amount_le NaN _ = False"
| "amount_le _ NaN = False"
| "amount_le a b = (a = b \<or> amount_less a b)"

text \<open>
  Rounding to binary64, to the nearest value and to the even one of two nearest values:
  \<open>ilog2 x\<close> is the binary exponent of a positive \<open>x\<close> (\<open>ilog2_bounds\<close> below), the
  unit in the last place of \<open>x\<close> is \<open>pow2 (ilog2 x - 52)\<close>, and not below the smallest
  subnormal \<open>pow2 (- 1074)\<close>; a result of magnitude \<open>2 ^ 1024\<close> is an overflow.
  The sum of two floats, and the float that a decimal numeral denotes, are the exact
  result rounded in this way.
\<close>

definition pow2 :: "int \<Rightarrow> real" where
  "pow2 e = (if 0 \<le> e then 2 ^ nat e else 1 / 2 ^ nat (- e))"

definition ilog2 :: "real \<Rightarrow> int" where
  "ilog2 x = (if 1 \<le> x then bitlen \<lfloor>x\<rfloor> - 1 else - bitlen (\<lceil>1 / x\<rceil> - 1))"

definition round_half_even :: "real \<Rightarrow> int" where
  "round_half_even x =
     (let f = \<lfloor>x\<rfloor>; r = x - of_int f
      in if r < 1 / 2 then f else if 1 / 2 < r then f + 1 else if even f then f else f + 1)"

definition round64 :: "real \<Rightarrow> amount" where
  "round64 x =
     (if x = 0 then Fin 0
      else let e = max (ilog2 \<bar>x\<bar> - 52) (- 1074);
               y = of_int (round_half_even (x / pow2 e)) * pow2 e
           in if 2 ^ 1024 \<le> y then PInf else if y \<le> - (2 ^ 1024) then NInf else Fin y)"

section \<open>Award size categories\<close>

text \<open>
  \<open>pd.cut(x, bins, labels)\<close> with its default arguments (\<open>right=True\<close>,
  \<open>include_lowest=False\<close>): the value gets the label of the first interval
  \<open>(lo, hi]\<close> of consecutive edges that holds it, and no label (NaN) when no interval does.
\<close>

fun pd_cut :: "amount list \<Rightarrow> string list \<Rightarrow> amount \<Rightarrow> string option" where
  "pd_cut (lo # hi # bins) (l # labels) x =
     (if amount_less lo x \<and> amount_le x hi then Some l else pd_cut (hi # bins) labels x)"
| "pd_cut _ _ _ = None"

definition size_bins :: "amount list" where
  "size_bins = [Fin 0, Fin 10000, Fin 100000, Fin 1000000, Fin 10000000, PInf]"

definition size_labels :: "string list" where
  "size_labels = [''Micro (< $10K)'', ''Small ($10K - $100K)'', ''Medium ($100K - $1M)'',
                  ''Large ($1M - $10M)'', ''Major (> $10M)'']"

definition award_size_category :: "amount \<Rightarrow> string option" where
  "award_size_category x = pd_cut size_bins size_labels x"

section \<open>Strings\<close>

text \<open>
  Python strings are modelled as byte strings (UTF-8). The model is that of Python for
  ASCII text: the case functions act on the ASCII letters, and the digits and the white
  space of a number are the ASCII ones. Python also maps the case of other letters and
  reads other decimal digits; the statements below that depend on it are made for ASCII
  text (\<open>is_ascii\<close>).
\<close>

definition is_ascii :: "char \<Rightarrow> bool" where
  "is_ascii c = (of_char c < (128::nat))"

definition ascii_uppercase :: string where
  "ascii_uppercase = ''ABCDEFGHIJKLMNOPQRSTUVWXYZ''"

definition ascii_lowercase :: string where
  "ascii_lowercase = ''abcdefghijklmnopqrstuvwxyz''"

definition is_upper :: "char \<Rightarrow> bool" where
  "is_upper c = (c \<in> set ascii_uppercase)"

definition is_lower :: "char \<Rightarrow> bool" where
  "is_lower c = (c \<in> set ascii_lowercase)"

definition lower_char :: "char \<Rightarrow> char" where
  "lower_char c = (case map_of (zip ascii_uppercase ascii_lowercase) c of
                     Some d \<Rightarrow> d | None \<Rightarrow> c)"

definition upper_char :: "char \<Rightarrow> char" where
  "upper_char c = (case map_of (zip ascii_lowercase ascii_uppercase) c of
                     Some d \<Rightarrow> d | None \<Rightarrow> c)"

definition str_lower :: "string \<Rightarrow> string" where
  "str_lower s = map lower_char s"

text \<open>
  \<open>str.title()\<close>: a cased character that follows an uncased one (or starts the string)
  is upper-cased, a cased character that follows a cased one is lower-cased.
\<close>

fun title_from :: "bool \<Rightarrow> string \<Rightarrow> string" where
  "title_from prev_cased [] = []"
| "title_from prev_cased (c # cs) =
     (if is_lower c then (if prev_cased then c else upper_char c) # title_from True cs
      else if is_upper c then (if prev_cased then lower_char c else c) # title_from True cs
      else c # title_from False cs)"

definition str_title :: "string \<Rightarrow> string" where
  "str_title s = title_from False s"

definition startswith :: "string \<Rightarrow> string \<Rightarrow> bool" where
  "startswith s p = (take (length p) s = p)"

text \<open>
  \<open>s.replace(old, new)\<close>: every non-overlapping occurrence of \<open>old\<close>, found from the
  left, is replaced; an empty \<open>old\<close> matches before every character and at the end.
\<close>

fun str_replace :: "string \<Rightarrow> string \<Rightarrow> string \<Rightarrow> string" where
  "str_replace [] new s = new @ concat (map (\<lambda>c. c # new) s)"
| "str_replace (a # old) new [] = []"
| "str_replace (a # old) new (c # cs) =
     (if c = a \<and> take (length old) cs = old
      then new @ str_replace (a # old) new (drop (length old) cs)
      else c # str_replace (a # old) new cs)"

section \<open>Agency names\<close>

definition agency_mappings :: "(string \<times> string) list" where
  "agency_mappings =
    [(''Agency for International Development (USAID)'', ''Agency for International Development''),
     (''Agency for International Development'', ''Agency for International Development''),
     (''Department of Health and Human Services (HHS)'', ''Department of Health and Human Services''),
     (''Department of Health and Human Services'', ''Department of Health and Human Services''),
     (''National Science Foundation (NSF)'', ''National Science Foundation''),
     (''National Science Foundation'', ''National Science Foundation''),
     (''Department of Justice (DOJ)'', ''Department of Justice''),
     (''Department of Justice'', ''Department of Justice''),
     (''Department of Defense (DOD)'', ''Department of Defense''),
     (''Department of Defense'', ''Department of Defense''),
     (''Department of Education (ED)'', ''Department of Education''),
     (''Department of Education'', ''Department of Education''),
     (''Environmental Protection Agency (EPA)'', ''Environmental Protection Agency''),
     (''Environmental Protection Agency'', ''Environmental Protection Agency'')]"

text \<open>
  \<open>Series.replace(dict)\<close> on one value: a value equal to a key becomes the key's value,
  any other value stays.
\<close>

definition replace_value :: "(string \<times> string) list \<Rightarrow> string \<Rightarrow> string" where
  "replace_value table x = (case map_of table x of Some y \<Rightarrow> y | None \<Rightarrow> x)"

definition canonicalize :: "string \<Rightarrow> string" where
  "canonicalize x = replace_value agency_mappings x"

section \<open>Theme labels\<close>

definition theme_label :: "string \<Rightarrow> string" where
  "theme_label col = str_title (str_replace ''_'' '' '' (str_replace ''theme_'' [] col))"

definition theme_column_of :: "string \<Rightarrow> string" where
  "theme_column_of theme = ''theme_'' @ str_replace '' '' ''_'' (str_lower theme)"

section \<open>Parsing an amount\<close>

text \<open>
  \<open>float(s)\<close> on a string, after Python's grammar: surrounding white space is dropped, then
  come an optional sign and either \<open>inf\<close>, \<open>infinity\<close> or \<open>nan\<close> in any case, or a
  decimal number with an optional exponent, where single underscores may separate digits.
  The result is \<open>None\<close> where Python raises \<open>ValueError\<close>, and otherwise the value of
  the decimal, rounded to binary64.
\<close>

definition is_space :: "char \<Rightarrow> bool" where
  "is_space c = (c \<in> set [CHR 0x09, CHR 0x0A, CHR 0x0B, CHR 0x0C, CHR 0x0D,
                           CHR 0x1C, CHR 0x1D, CHR 0x1E, CHR 0x1F, CHR 0x20])"

definition str_strip :: "string \<Rightarrow> string" where
  "str_strip s = rev (dropWhile is_space (rev (dropWhile is_space s)))"

definition is_digit :: "char \<Rightarrow> bool" where
  "is_digit c = (c \<in> set ''0123456789'')"

definition digit_value :: "char \<Rightarrow> nat" where
  "digit_value c = length (takeWhile (\<lambda>d. d \<noteq> c) ''0123456789'')"

fun digitpart_ok :: "string \<Rightarrow> bool" where
  "digitpart_ok [] = False"
| "digitpart_ok [c] = is_digit c"
| "digitpart_ok (c # d # cs) =
     (is_digit c \<and> (if d = CHR ''_'' then digitpart_ok cs else digitpart_ok (d # cs)))"

definition digits_value :: "string \<Rightarrow> int" where
  "digits_value s = foldl (\<lambda>n c. 10 * n + int (digit_value c)) 0 (filter is_digit s)"

definition parse_number :: "string \<Rightarrow> real option" where
  "parse_number s =
     (let ip = takeWhile (\<lambda>c. c \<noteq> CHR ''.'') s;
          rest = dropWhile (\<lambda>c. c \<noteq> CHR ''.'') s
      in case rest of
           [] \<Rightarrow> (if digitpart_ok ip then Some (real_of_int (digits_value ip)) else None)
         | _ # fp \<Rightarrow>
             (if (digitpart_ok fp \<and> (ip = [] \<or> digitpart_ok ip)) \<or> (digitpart_ok ip \<and> fp = [])
              then Some (real_of_int (digits_value ip)
                         + real_of_int (digits_value fp) / 10 ^ length (filter is_digit fp))
              else None))"

definition parse_exponent :: "string \<Rightarrow> int option" where
  "parse_exponent s =
     (case s of
        [] \<Rightarrow> None
      | c # cs \<Rightarrow>
          if c = CHR ''-'' then (if digitpart_ok cs then Some (- digits_value cs) else None)
          else if c = CHR ''+'' then (if digitpart_ok cs then Some (digits_value cs) else None)
          else if digitpart_ok s then Some (digits_value s) else None)"

definition scale10 :: "real \<Rightarrow> int \<Rightarrow> real" where
  "scale10 m e = (if 0 \<le> e then m * 10 ^ nat e else m / 10 ^ nat (- e))"

definition parse_floatnumber :: "string \<Rightarrow> real option" where
  "parse_floatnumber s =
     (let is_e = (\<lambda>c. c = CHR ''e'' \<or> c = CHR ''E'');
          mant = takeWhile (\<lambda>c. \<not> is_e c) s;
          rest = dropWhile (\<lambda>c. \<not> is_e c) s
      in case rest of
           [] \<Rightarrow> parse_number mant
         | _ # ex \<Rightarrow>
             (case (parse_number mant, parse_exponent ex) of
                (Some m, Some e) \<Rightarrow> Some (scale10 m e)
              | _ \<Rightarrow> None))"

definition parse_absfloat :: "string \<Rightarrow> amount option" where
  "parse_absfloat s =
     (if str_lower s = ''inf'' \<or> str_lower s = ''infinity'' then Some PInf
      else if str_lower s = ''nan'' then Some NaN
      else map_option round64 (parse_floatnumber s))"

fun amount_neg :: "amount \<Rightarrow> amount" where
  "amount_neg (Fin x) = Fin (- x)"
| "amount_neg PInf = NInf"
| "amount_neg NInf = PInf"
| "amount_neg NaN = NaN"

definition py_float :: "string \<Rightarrow> amount option" where
  "py_float s =
     (case str_strip s of
        [] \<Rightarrow> None
      | c # cs \<Rightarrow>
          if c = CHR ''-'' then map_option amount_neg (parse_absfloat cs)
          else if c = CHR ''+'' then parse_absfloat cs
          else parse_absfloat (c # cs))"

text \<open>The substitution of the pattern \<open>[$,]\<close> by the empty string, on one string.\<close>

definition strip_currency :: "string \<Rightarrow> string" where
  "strip_currency s = filter (\<lambda>c. c \<noteq> CHR ''$'' \<and> c \<noteq> CHR '','') s"

section \<open>The table\<close>

text \<open>
  A column (a pandas Series) carries its dtype: float64, int64, bool, object (strings, with
  \<open>None\<close> for a missing entry) or datetime64[ns] (nanoseconds since 1970-01-01, with
  \<open>None\<close> for NaT). A DataFrame is the list of its named columns, in order.
\<close>

datatype series =
    FloatS "amount list"
  | IntS "int list"
  | BoolS "bool list"
  | ObjS "string option list"
  | DateS "int option list"

type_synonym dataframe = "(string \<times> series) list"

datatype error =
    FileNotFoundError
  | ParserError
  | KeyError string
  | ValueError string
  | TypeError
  | AttributeError

fun series_len :: "series \<Rightarrow> nat" where
  "series_len (FloatS xs) = length xs"
| "series_len (IntS xs) = length xs"
| "series_len (BoolS xs) = length xs"
| "series_len (ObjS xs) = length xs"
| "series_len (DateS xs) = length xs"

definition columns :: "dataframe \<Rightarrow> string list" where
  "columns df = map fst df"

definition nrows :: "dataframe \<Rightarrow> nat" where
  "nrows df = (case df of [] \<Rightarrow> 0 | (c, s) # _ \<Rightarrow> series_len s)"

text \<open>\<open>df[col]\<close> raises \<open>KeyError\<close> for a column that the table does not have.\<close>

definition get_col :: "dataframe \<Rightarrow> string \<Rightarrow> error + series" where
  "get_col df col = (case map_of df col of None \<Rightarrow> Inl (KeyError col) | Some s \<Rightarrow> Inr s)"

text \<open>\<open>df[col] = s\<close> replaces the column in place, or appends it when it is new.\<close>

fun set_col :: "dataframe \<Rightarrow> string \<Rightarrow> series \<Rightarrow> dataframe" where
  "set_col [] col s = [(col, s)]"
| "set_col ((c, t) # df) col s = (if c = col then (col, s) # df else (c, t) # set_col df col s)"

definition and_then :: "error + 'a \<Rightarrow> ('a \<Rightarrow> error + 'b) \<Rightarrow> error + 'b" where
  "and_then m f = (case m of Inl e \<Rightarrow> Inl e | Inr x \<Rightarrow> f x)"

section \<open>Loading\<close>

text \<open>
  The date conversion \<open>pd.to_datetime\<close> is a parameter: a function from a column to a
  datetime column, or to the error it raises.
\<close>

fun convert_dates :: "(series \<Rightarrow> error + series) \<Rightarrow> string list \<Rightarrow> dataframe \<Rightarrow> error + dataframe" where
  "convert_dates to_datetime [] df = Inr df"
| "convert_dates to_datetime (col # cols) df =
     and_then (get_col df col) (\<lambda>s.
     and_then (to_datetime s) (\<lambda>s'.
     convert_dates to_datetime cols (set_col df col s')))"

definition date_columns :: "string list" where
  "date_columns = [''action_date'', ''contract_start_date'', ''contract_end_date'']"

text \<open>
  \<open>.replace(r'[$,]', '', regex=True)\<close> rewrites the strings of an object column and leaves
  a numeric column as it is.
\<close>

fun replace_currency :: "series \<Rightarrow> series" where
  "replace_currency (ObjS xs) = ObjS (map (map_option strip_currency) xs)"
| "replace_currency s = s"

text \<open>
  \<open>.astype(float)\<close>: a missing entry becomes NaN, a string is parsed, and the first
  string that is no number raises \<open>ValueError\<close>.
\<close>

fun floats_of :: "string option list \<Rightarrow> error + amount list" where
  "floats_of [] = Inr []"
| "floats_of (None # xs) = and_then (floats_of xs) (\<lambda>ys. Inr (NaN # ys))"
| "floats_of (Some s # xs) =
     (case py_float s of
        None \<Rightarrow> Inl (ValueError s)
      | Some a \<Rightarrow> and_then (floats_of xs) (\<lambda>ys. Inr (a # ys)))"

fun astype_float :: "series \<Rightarrow> error + series" where
  "astype_float (FloatS xs) = Inr (FloatS xs)"
| "astype_float (IntS xs) = Inr (FloatS (map (\<lambda>i. round64 (real_of_int i)) xs))"
| "astype_float (BoolS xs) = Inr (FloatS (map (\<lambda>b. Fin (if b then 1 else 0)) xs))"
| "astype_float (ObjS xs) = and_then (floats_of xs) (\<lambda>ys. Inr (FloatS ys))"
| "astype_float (DateS xs) = Inl TypeError"

definition clean_award_amount :: "dataframe \<Rightarrow> error + dataframe" where
  "clean_award_amount df =
     and_then (get_col df ''award_amount'') (\<lambda>s.
     and_then (astype_float (replace_currency s)) (\<lambda>s'.
     Inr (set_col df ''award_amount'' s')))"

fun replace_values :: "(string \<times> string) list \<Rightarrow> series \<Rightarrow> series" where
  "replace_values table (ObjS xs) = ObjS (map (map_option (replace_value table)) xs)"
| "replace_values table s = s"

definition consolidate_agencies :: "dataframe \<Rightarrow> error + dataframe" where
  "consolidate_agencies df =
     and_then (get_col df ''awarding_agency_name'') (\<lambda>s.
     Inr (set_col df ''awarding_agency_name'' (replace_values agency_mappings s)))"

definition ns_per_day :: int where
  "ns_per_day = 86400 * 1000000000"

text \<open>
  \<open>(end - start).dt.days\<close>: whole days, rounded down; NaN where a date is NaT, which
  makes the column float64. Only datetime columns can be subtracted this way.
\<close>

definition days_between :: "int option \<Rightarrow> int option \<Rightarrow> int option" where
  "days_between e s =
     (case (e, s) of (Some a, Some b) \<Rightarrow> Some ((a - b) div ns_per_day) | _ \<Rightarrow> None)"

definition days_series :: "int option list \<Rightarrow> series" where
  "days_series ds =
     (if None \<in> set ds
      then FloatS (map (\<lambda>d. case d of None \<Rightarrow> NaN | Some n \<Rightarrow> round64 (real_of_int n)) ds)
      else IntS (map the ds))"

definition duration_days :: "series \<Rightarrow> series \<Rightarrow> error + series" where
  "duration_days e s =
     (case (e, s) of
        (DateS es, DateS ss) \<Rightarrow> Inr (days_series (map2 days_between es ss))
      | _ \<Rightarrow> Inl TypeError)"

definition add_contract_duration :: "dataframe \<Rightarrow> error + dataframe" where
  "add_contract_duration df =
     (if ''contract_duration_days'' \<notin> set (columns df)
      then and_then (get_col df ''contract_end_date'') (\<lambda>e.
           and_then (get_col df ''contract_start_date'') (\<lambda>s.
           and_then (duration_days e s) (\<lambda>d.
           Inr (set_col df ''contract_duration_days'' d))))
      else Inr df)"

fun cut_sizes :: "series \<Rightarrow> error + series" where
  "cut_sizes (FloatS xs) = Inr (ObjS (map award_size_category xs))"
| "cut_sizes (IntS xs) = Inr (ObjS (map (\<lambda>i. award_size_category (Fin (real_of_int i))) xs))"
| "cut_sizes s = Inl TypeError"

definition add_award_size_category :: "dataframe \<Rightarrow> error + dataframe" where
  "add_award_size_category df =
     (if ''award_size_category'' \<notin> set (columns df)
      then and_then (get_col df ''award_amount'') (\<lambda>a.
           and_then (cut_sizes a) (\<lambda>c.
           Inr (set_col df ''award_size_category'' c)))
      else Inr df)"

text \<open>
  \<open>load_data\<close>: the argument \<open>csv\<close> is what \<open>pd.read_csv\<close> gave, a table or the error
  it raised. Any exception ends the load; the caller then gets \<open>None\<close>, here the error.
\<close>

definition load_data :: "(series \<Rightarrow> error + series) \<Rightarrow> error + dataframe \<Rightarrow> error + dataframe" where
  "load_data to_datetime csv =
     and_then csv (\<lambda>df.
     and_then (convert_dates to_datetime date_columns df) (\<lambda>df.
     and_then (clean_award_amount df) (\<lambda>df.
     and_then (consolidate_agencies df) (\<lambda>df.
     and_then (add_contract_duration df) (\<lambda>df.
     add_award_size_category df)))))"

text \<open>
  A date conversion for the examples: it reads the dates written \<open>YYYY-MM-DD\<close>, as
  \<open>pd.to_datetime\<close> does, takes an empty cell to NaT and leaves a datetime column as it
  is. It rejects every other cell, where \<open>pd.to_datetime\<close> knows more formats.
\<close>

definition days_from_civil :: "int \<Rightarrow> int \<Rightarrow> int \<Rightarrow> int" where
  "days_from_civil y m d =
     (let y' = (if m \<le> 2 then y - 1 else y);
          era = y' div 400;
          yoe = y' mod 400;
          doy = (153 * (if 2 < m then m - 3 else m + 9) + 2) div 5 + d - 1;
          doe = yoe * 365 + yoe div 4 - yoe div 100 + doy
      in era * 146097 + doe - 719468)"

definition days_in_month :: "int \<Rightarrow> int \<Rightarrow> int" where
  "days_in_month y m =
     (if m = 2 then (if y mod 4 = 0 \<and> (y mod 100 \<noteq> 0 \<or> y mod 400 = 0) then 29 else 28)
      else if m = 4 \<or> m = 6 \<or> m = 9 \<or> m = 11 then 30 else 31)"

definition parse_iso_date :: "string \<Rightarrow> int option" where
  "parse_iso_date s =
     (if length s = 10 \<and> s ! 4 = CHR ''-'' \<and> s ! 7 = CHR ''-'' \<and>
         list_all is_digit (take 4 s @ take 2 (drop 5 s) @ drop 8 s)
      then let y = digits_value (take 4 s);
               m = digits_value (take 2 (drop 5 s));
               d = digits_value (drop 8 s)
           in if 1 \<le> m \<and> m \<le> 12 \<and> 1 \<le> d \<and> d \<le> days_in_month y m
              then Some (days_from_civil y m d * ns_per_day) else None
      else None)"

fun iso_cells :: "string option list \<Rightarrow> error + int option list" where
  "iso_cells [] = Inr []"
| "iso_cells (None # xs) = and_then (iso_cells xs) (\<lambda>ds. Inr (None # ds))"
| "iso_cells (Some s # xs) =
     (case parse_iso_date s of
        None \<Rightarrow> Inl (ValueError s)
      | Some t \<Rightarrow> and_then (iso_cells xs) (\<lambda>ds. Inr (Some t # ds)))"

fun iso_dates :: "series \<Rightarrow> error + series" where
  "iso_dates (ObjS xs) = and_then (iso_cells xs) (\<lambda>ds. Inr (DateS ds))"
| "iso_dates (DateS ds) = Inr (DateS ds)"
| "iso_dates s = Inl TypeError"

section \<open>Filtering\<close>

text \<open>
  The sidebar's selection. Dates are day numbers (days since 1970-01-01); \<open>''All''\<close>
  switches the agency and the size filter off, and so does an empty list of themes.
\<close>

record selection =
  date_range :: "int \<times> int"
  selected_agency :: string
  selected_size :: string
  selected_themes :: "string list"

definition date_of :: "int \<Rightarrow> int" where
  "date_of t = t div ns_per_day"

definition date_mask :: "dataframe \<Rightarrow> int \<times> int \<Rightarrow> error + bool list" where
  "date_mask df r =
     and_then (get_col df ''action_date'') (\<lambda>s.
       case s of
         DateS ts \<Rightarrow> Inr (map (\<lambda>t. case t of None \<Rightarrow> False
                                      | Some n \<Rightarrow> fst r \<le> date_of n \<and> date_of n \<le> snd r) ts)
       | _ \<Rightarrow> Inl AttributeError)"

fun series_eq :: "series \<Rightarrow> string \<Rightarrow> bool list" where
  "series_eq (ObjS xs) v = map (\<lambda>x. x = Some v) xs"
| "series_eq s v = replicate (series_len s) False"

definition mask_and :: "bool list \<Rightarrow> bool list \<Rightarrow> bool list" where
  "mask_and m1 m2 = map2 (\<and>) m1 m2"

definition mask_or :: "bool list \<Rightarrow> bool list \<Rightarrow> bool list" where
  "mask_or m1 m2 = map2 (\<or>) m1 m2"

definition equals_filter :: "dataframe \<Rightarrow> string \<Rightarrow> string \<Rightarrow> bool list \<Rightarrow> error + bool list" where
  "equals_filter df col selected msk =
     (if selected \<noteq> ''All''
      then and_then (get_col df col) (\<lambda>s. Inr (mask_and msk (series_eq s selected)))
      else Inr msk)"

text \<open>
  The loop over the selected themes: each label is turned back into a column name, and the
  column, which holds the theme's flags, is or-ed into \<open>theme_mask\<close>. The flags of an
  integer column are its entries other than 0.
\<close>

fun theme_mask :: "dataframe \<Rightarrow> string list \<Rightarrow> bool list \<Rightarrow> error + bool list" where
  "theme_mask df [] acc = Inr acc"
| "theme_mask df (theme # themes) acc =
     and_then (get_col df (theme_column_of theme)) (\<lambda>s.
       case s of
         BoolS bs \<Rightarrow> theme_mask df themes (mask_or acc bs)
       | IntS xs \<Rightarrow> theme_mask df themes (mask_or acc (map (\<lambda>x. x \<noteq> 0) xs))
       | _ \<Rightarrow> Inl TypeError)"

definition theme_filter :: "dataframe \<Rightarrow> string list \<Rightarrow> bool list \<Rightarrow> error + bool list" where
  "theme_filter df themes msk =
     (if themes \<noteq> []
      then and_then (theme_mask df themes (replicate (nrows df) False)) (\<lambda>tm.
           Inr (mask_and msk tm))
      else Inr msk)"

definition filter_mask :: "dataframe \<Rightarrow> selection \<Rightarrow> error + bool list" where
  "filter_mask df sel =
     and_then (date_mask df (date_range sel)) (\<lambda>msk.
     and_then (equals_filter df ''awarding_agency_name'' (selected_agency sel) msk) (\<lambda>msk.
     and_then (equals_filter df ''award_size_category'' (selected_size sel) msk) (\<lambda>msk.
     theme_filter df (selected_themes sel) msk)))"

definition keep :: "bool list \<Rightarrow> 'a list \<Rightarrow> 'a list" where
  "keep msk xs = map snd (filter fst (zip msk xs))"

fun series_keep :: "bool list \<Rightarrow> series \<Rightarrow> series" where
  "series_keep msk (FloatS xs) = FloatS (keep msk xs)"
| "series_keep msk (IntS xs) = IntS (keep msk xs)"
| "series_keep msk (BoolS xs) = BoolS (keep msk xs)"
| "series_keep msk (ObjS xs) = ObjS (keep msk xs)"
| "series_keep msk (DateS xs) = DateS (keep msk xs)"

text \<open>\<open>df[mask]\<close>: the rows whose entry in the mask is true, in their order, column by column.\<close>

definition filter_rows :: "bool list \<Rightarrow> dataframe \<Rightarrow> dataframe" where
  "filter_rows msk df = map (\<lambda>(c, s). (c, series_keep msk s)) df"

definition theme_columns :: "dataframe \<Rightarrow> string list" where
  "theme_columns df = filter (\<lambda>col. startswith col ''theme_'') (columns df)"

definition theme_options :: "dataframe \<Rightarrow> string list" where
  "theme_options df = map theme_label (theme_columns df)"

section \<open>Aggregates\<close>

text \<open>
  The sum of two floats is the exact sum, rounded; an infinity absorbs finite values, and
  opposite infinities give NaN. A sum over a column skips NaN, as pandas does by default,
  and adds from left to right, starting from 0. For a long column numpy adds in blocks,
  and \<open>groupby\<close> adds with a compensation term; these orders are not modelled. The
  properties of sums below are stated for amounts all of whose partial sums are exact,
  whatever the order.
\<close>

fun amount_add :: "amount \<Rightarrow> amount \<Rightarrow> amount" where
  "amount_add (Fin a) (Fin b) = round64 (a + b)"
| "amount_add NaN _ = NaN"
| "amount_add _ NaN = NaN"
| "amount_add PInf NInf = NaN"
| "amount_add NInf PInf = NaN"
| "amount_add PInf _ = PInf"
| "amount_add _ PInf = PInf"
| "amount_add NInf _ = NInf"
| "amount_add _ NInf = NInf"

definition sum_skipna :: "amount list \<Rightarrow> amount" where
  "sum_skipna xs = foldl amount_add (Fin 0) (filter (\<lambda>a. a \<noteq> NaN) xs)"

text \<open>
  The number that an entry adds to such a sum, for the sums of finite entries:
  its value, and nothing for NaN.
\<close>

definition amount_value :: "amount \<Rightarrow> real" where
  "amount_value a = (case a of Fin x \<Rightarrow> x | _ \<Rightarrow> 0)"

fun series_sum :: "series \<Rightarrow> error + amount" where
  "series_sum (FloatS xs) = Inr (sum_skipna xs)"
| "series_sum (IntS xs) = Inr (Fin (real_of_int (sum_list xs)))"
| "series_sum (BoolS xs) = Inr (Fin (real (length (filter id xs))))"
| "series_sum (ObjS xs) = Inl TypeError"
| "series_sum (DateS xs) = Inl TypeError"

fun series_notna :: "series \<Rightarrow> bool list" where
  "series_notna (FloatS xs) = map (\<lambda>a. a \<noteq> NaN) xs"
| "series_notna (IntS xs) = map (\<lambda>_. True) xs"
| "series_notna (BoolS xs) = map (\<lambda>_. True) xs"
| "series_notna (ObjS xs) = map (\<lambda>x. x \<noteq> None) xs"
| "series_notna (DateS xs) = map (\<lambda>x. x \<noteq> None) xs"

fun series_nunique :: "series \<Rightarrow> nat" where
  "series_nunique (FloatS xs) = length (remdups (filter (\<lambda>a. a \<noteq> NaN) xs))"
| "series_nunique (IntS xs) = length (remdups xs)"
| "series_nunique (BoolS xs) = length (remdups xs)"
| "series_nunique (ObjS xs) = length (remdups (filter (\<lambda>x. x \<noteq> None) xs))"
| "series_nunique (DateS xs) = length (remdups (filter (\<lambda>x. x \<noteq> None) xs))"

definition total_contracts :: "dataframe \<Rightarrow> nat" where
  "total_contracts filtered_df = nrows filtered_df"

definition total_award_amount :: "dataframe \<Rightarrow> error + amount" where
  "total_award_amount filtered_df = and_then (get_col filtered_df ''award_amount'') series_sum"

definition unique_recipients :: "dataframe \<Rightarrow> error + nat" where
  "unique_recipients filtered_df =
     and_then (get_col filtered_df ''recipient_name'') (\<lambda>s. Inr (series_nunique s))"

text \<open>
  The theme distribution: the sum of every theme column of the filtered table (the number
  of true flags), under the theme's label.
\<close>

fun flag_count :: "series \<Rightarrow> error + int" where
  "flag_count (BoolS bs) = Inr (int (length (filter id bs)))"
| "flag_count (IntS xs) = Inr (sum_list xs)"
| "flag_count s = Inl TypeError"

fun theme_counts :: "dataframe \<Rightarrow> string list \<Rightarrow> error + (string \<times> int) list" where
  "theme_counts filtered_df [] = Inr []"
| "theme_counts filtered_df (col # cols) =
     and_then (get_col filtered_df col) (\<lambda>s.
     and_then (flag_count s) (\<lambda>n.
     and_then (theme_counts filtered_df cols) (\<lambda>rest.
     Inr ((theme_label col, n) # rest))))"

definition theme_data :: "dataframe \<Rightarrow> dataframe \<Rightarrow> error + (string \<times> int) list" where
  "theme_data df filtered_df = theme_counts filtered_df (theme_columns df)"

text \<open>
  \<open>groupby\<close>: the groups are the distinct keys in ascending order, rows with a missing key
  belong to no group.
\<close>

definition group_keys :: "('k::linorder) option list \<Rightarrow> 'k list" where
  "group_keys ks = sort (remdups (map the (filter (\<lambda>k. k \<noteq> None) ks)))"

definition group_rows :: "'k option list \<Rightarrow> 'v list \<Rightarrow> 'k \<Rightarrow> 'v list" where
  "group_rows ks vs k = map snd (filter (\<lambda>(k', v). k' = Some k) (zip ks vs))"

text \<open>
  \<open>sort_values(ascending=True)\<close>: ascending by value, NaN last. Equal values keep their
  order here; the order that numpy's sort gives to equal values is not modelled.
\<close>

fun sorts_le :: "amount \<Rightarrow> amount \<Rightarrow> bool" where
  "sorts_le _ NaN = True"
| "sorts_le NaN _ = False"
| "sorts_le a b = amount_le a b"

fun insort_value :: "string \<times> amount \<Rightarrow> (string \<times> amount) list \<Rightarrow> (string \<times> amount) list" where
  "insort_value p [] = [p]"
| "insort_value p (q # qs) =
     (if sorts_le (snd p) (snd q) then p # q # qs else q # insort_value p qs)"

definition sort_values :: "(string \<times> amount) list \<Rightarrow> (string \<times> amount) list" where
  "sort_values qs = foldr insort_value qs []"

definition tail :: "nat \<Rightarrow> 'a list \<Rightarrow> 'a list" where
  "tail n xs = drop (length xs - n) xs"

definition agency_totals :: "string option list \<Rightarrow> amount list \<Rightarrow> (string \<times> amount) list" where
  "agency_totals ks vs = map (\<lambda>k. (k, sum_skipna (group_rows ks vs k))) (group_keys ks)"

definition top_10_agencies :: "dataframe \<Rightarrow> error + (string \<times> amount) list" where
  "top_10_agencies filtered_df =
     and_then (get_col filtered_df ''awarding_agency_name'') (\<lambda>k.
     and_then (get_col filtered_df ''award_amount'') (\<lambda>v.
       case (k, v) of
         (ObjS ks, FloatS vs) \<Rightarrow> Inr (tail 10 (sort_values (agency_totals ks vs)))
       | _ \<Rightarrow> Inl TypeError))"

text \<open>
  The month of a timestamp, as pandas numbers monthly periods: months since 1970-01.
\<close>

definition year_month_of_days :: "int \<Rightarrow> int \<times> int" where
  "year_month_of_days days =
     (let z = days + 719468;
          era = z div 146097;
          doe = z mod 146097;
          yoe = (doe - doe div 1460 + doe div 36524 - doe div 146096) div 365;
          doy = doe - (365 * yoe + yoe div 4 - yoe div 100);
          mp = (5 * doy + 2) div 153;
          m = (if mp < 10 then mp + 3 else mp - 9);
          y = yoe + era * 400 + (if m \<le> 2 then 1 else 0)
      in (y, m))"

definition to_period_M :: "int \<Rightarrow> int" where
  "to_period_M t = (case year_month_of_days (date_of t) of (y, m) \<Rightarrow> (y - 1970) * 12 + (m - 1))"

definition count_notna :: "bool list \<Rightarrow> nat" where
  "count_notna bs = length (filter id bs)"

definition monthly :: "int option list \<Rightarrow> amount list \<Rightarrow> bool list \<Rightarrow> (int \<times> amount \<times> nat) list" where
  "monthly ps vs ids =
     map (\<lambda>p. (p, sum_skipna (group_rows ps vs p), count_notna (group_rows ps ids p)))
         (group_keys ps)"

definition timeline_data :: "dataframe \<Rightarrow> error + (int \<times> amount \<times> nat) list" where
  "timeline_data filtered_df =
     and_then (get_col filtered_df ''action_date'') (\<lambda>d.
     and_then (get_col filtered_df ''award_amount'') (\<lambda>v.
     and_then (get_col filtered_df ''award_id'') (\<lambda>i.
       case (d, v) of
         (DateS ts, FloatS vs) \<Rightarrow>
           Inr (monthly (map (map_option to_period_M) ts) vs (series_notna i))
       | _ \<Rightarrow> Inl TypeError)))"

section \<open>The page\<close>

text \<open>
  The options of a select box of the sidebar: \<open>sorted(df[col].unique().tolist())\<close>.
  A missing entry is a float NaN, which \<open>sorted\<close> cannot compare with a string: a column
  of strings with a missing entry raises \<open>TypeError\<close>. The options of a column of another
  dtype are not listed.
\<close>

fun unique_sorted :: "series \<Rightarrow> error + string option list" where
  "unique_sorted (ObjS xs) =
     (if None \<in> set xs \<and> (\<exists>x \<in> set xs. x \<noteq> None) then Inl TypeError
      else if None \<in> set xs then Inr [None]
      else Inr (map Some (sort (remdups (map the xs)))))"
| "unique_sorted s = Inr []"

definition select_options :: "dataframe \<Rightarrow> string \<Rightarrow> error + string option list" where
  "select_options df col =
     and_then (get_col df col) (\<lambda>s.
     and_then (unique_sorted s) (\<lambda>opts.
     Inr (Some ''All'' # opts)))"

text \<open>
  The data table shows \<open>filtered_df[display_cols]\<close>, which raises \<open>KeyError\<close> when one of
  the columns is missing (here with the first missing column).
\<close>

definition display_cols :: "string list" where
  "display_cols = [''award_id'', ''recipient_name'', ''awarding_agency_name'',
                   ''award_amount'', ''action_date'', ''award_description'']"

fun select_columns :: "dataframe \<Rightarrow> string list \<Rightarrow> error + dataframe" where
  "select_columns df [] = Inr []"
| "select_columns df (col # cols) =
     and_then (get_col df col) (\<lambda>s.
     and_then (select_columns df cols) (\<lambda>rest.
     Inr ((col, s) # rest)))"

text \<open>
  What one run of the script shows, in order. After a failed load these are the two error
  notices, the loader's and the caller's. After a successful load an exception of a later
  step ends the run; the run is then that exception. The sidebar is kept with the options
  of its agency, size and theme boxes, the table with its number of rows, and the feed of
  sampled awards with its number of cards, \<open>min(5, len(filtered_df))\<close>. The static headings
  and style sheets are left out, and so are the calls into the Streamlit and Plotly
  libraries themselves. The feed draws its rows at random; the text of its cards, and the
  \<open>TypeError\<close> that a drawn row without a description raises, are not modelled.
\<close>

datatype view =
    LoadErrorNotice error
  | ErrorNotice string
  | Filters "string option list" "string option list" "string list"
  | Metrics nat amount nat
  | ThemeChart "(string \<times> int) list"
  | AgencyChart "(string \<times> amount) list"
  | TimelineChart "(int \<times> amount \<times> nat) list"
  | DataTable nat
  | FeaturedAwards nat

definition render :: "dataframe \<Rightarrow> selection \<Rightarrow> error + view list" where
  "render df sel =
     and_then (select_options df ''awarding_agency_name'') (\<lambda>agencies.
     and_then (select_options df ''award_size_category'') (\<lambda>award_sizes.
     and_then (filter_mask df sel) (\<lambda>msk.
     let filtered_df = filter_rows msk df in
     and_then (total_award_amount filtered_df) (\<lambda>total.
     and_then (unique_recipients filtered_df) (\<lambda>recipients.
     and_then (theme_data df filtered_df) (\<lambda>themes.
     and_then (top_10_agencies filtered_df) (\<lambda>agencies10.
     and_then (timeline_data filtered_df) (\<lambda>timeline.
     and_then (select_columns filtered_df display_cols) (\<lambda>shown.
     Inr [Filters agencies award_sizes (theme_options df),
          Metrics (total_contracts filtered_df) total recipients,
          ThemeChart themes, AgencyChart agencies10, TimelineChart timeline,
          DataTable (nrows shown),
          FeaturedAwards (min 5 (nrows filtered_df))])))))))))"

definition dashboard :: "(series \<Rightarrow> error + series) \<Rightarrow> error + dataframe \<Rightarrow> selection \<Rightarrow> error + view list" where
  "dashboard to_datetime csv sel =
     (case load_data to_datetime csv of
        Inl e \<Rightarrow> Inr [LoadErrorNotice e,
                      ErrorNotice ''Unable to load data. Please check the data file and try again.'']
      | Inr df \<Rightarrow> render df sel)"

section \<open>Properties of the rounding\<close>

text \<open>
  Rounding keeps the sign, and it keeps every whole number up to \<open>2 ^ 53\<close>. The exponent
  that \<open>ilog2\<close> computes is the binary exponent.
\<close>

lemma pow2_pos: "0 < pow2 e"
  by (simp add: pow2_def)

lemma round_half_even_of_int: "round_half_even (of_int k) = k"
  by (simp add: round_half_even_def)

lemma round_half_even_nonneg: "0 \<le> x \<Longrightarrow> 0 \<le> round_half_even x"
  by (auto simp add: round_half_even_def Let_def)

lemma ilog2_whole:
  assumes "1 \<le> k" and "k \<le> 2 ^ 53"
  shows "0 \<le> ilog2 (of_int k) \<and> ilog2 (of_int k) \<le> 53 \<and>
         (ilog2 (of_int k) = 53 \<longrightarrow> k = 2 ^ 53)"
proof -
  from assms(1) have pos: "0 < k" by simp
  have il: "ilog2 (of_int k) = bitlen k - 1"
    using assms(1) by (simp add: ilog2_def)
  from bitlen_bounds [OF pos] have lo: "2 ^ nat (bitlen k - 1) \<le> k" by simp
  have b1: "1 \<le> bitlen k" using pos by (simp add: bitlen_alt_def)
  have "(2::int) ^ nat (bitlen k - 1) \<le> 2 ^ 53" using lo assms(2) by linarith
  then have "nat (bitlen k - 1) \<le> 53"
    by (rule power_le_imp_le_exp [rotated]) simp
  then have up: "bitlen k - 1 \<le> 53" by linarith
  have "bitlen k - 1 = 53 \<longrightarrow> k = 2 ^ 53"
  proof
    assume "bitlen k - 1 = 53"
    then have "nat (bitlen k - 1) = 53" by simp
    with lo have "2 ^ 53 \<le> k" by simp
    with assms(2) show "k = 2 ^ 53" by linarith
  qed
  with b1 up il show ?thesis by simp
qed

lemma round64_whole_pos:
  assumes "1 \<le> k" and "k \<le> 2 ^ 53"
  shows "of_int (round_half_even (of_int k / pow2 (max (ilog2 (of_int k) - 52) (- 1074)))) *
           pow2 (max (ilog2 (of_int k) - 52) (- 1074)) = (of_int k :: real)"
proof -
  define e0 where "e0 = ilog2 (of_int k)"
  from ilog2_whole [OF assms] have r: "0 \<le> e0" "e0 \<le> 53" "e0 = 53 \<longrightarrow> k = 2 ^ 53"
    by (simp_all add: e0_def)
  have m: "max (e0 - 52) (- 1074) = e0 - 52" using r(1) by simp
  show ?thesis
  proof (cases "e0 \<le> 52")
    case True
    then have p: "pow2 (e0 - 52) = 1 / 2 ^ nat (52 - e0)"
      by (cases "e0 = 52") (simp_all add: pow2_def)
    have "of_int k / pow2 (e0 - 52) = (of_int (k * 2 ^ nat (52 - e0)) :: real)"
      by (simp add: p)
    then have "round_half_even (of_int k / pow2 (e0 - 52)) = k * 2 ^ nat (52 - e0)"
      by (simp only: round_half_even_of_int)
    then show ?thesis
      unfolding e0_def [symmetric] m by (simp add: p)
  next
    case False
    with r have e: "e0 = 53" and k: "k = 2 ^ 53" by simp_all
    have p: "pow2 (e0 - 52) = 2" by (simp add: e pow2_def)
    have "of_int k / pow2 (e0 - 52) = (of_int (2 ^ 52) :: real)"
      by (simp add: p k)
    then have "round_half_even (of_int k / pow2 (e0 - 52)) = 2 ^ 52"
      by (simp only: round_half_even_of_int)
    then show ?thesis
      unfolding e0_def [symmetric] m by (simp add: p k)
  qed
qed

lemma round64_of_int:
  assumes "\<bar>k\<bar> \<le> 2 ^ 53"
  shows "round64 (of_int k) = Fin (of_int k)"
proof (cases "k = 0")
  case True
  then show ?thesis by (simp add: round64_def)
next
  case False
  define j where "j = \<bar>k\<bar>"
  have j: "1 \<le> j" "j \<le> 2 ^ 53" using False assms by (simp_all add: j_def)
  define e where "e = max (ilog2 (of_int j) - 52) (- 1074)"
  have abs: "\<bar>of_int k :: real\<bar> = of_int j" by (simp add: j_def)
  have core: "of_int (round_half_even (of_int j / pow2 e)) * pow2 e = (of_int j :: real)"
    unfolding e_def by (rule round64_whole_pos [OF j])
  have y: "of_int (round_half_even (of_int k / pow2 e)) * pow2 e = (of_int k :: real)"
  proof (cases "0 \<le> k")
    case True
    then have "k = j" by (simp add: j_def)
    with core show ?thesis by simp
  next
    case False
    then have kj: "k = - j" by (simp add: j_def)
    from core have "round_half_even (of_int j / pow2 e) = round_half_even (of_int j / pow2 e)" by simp
    have "of_int j / pow2 e = of_int (round_half_even (of_int j / pow2 e))"
      using core pow2_pos [of e] by (simp add: field_simps)
    then obtain m :: int where m: "of_int j / pow2 e = of_int m"
      by blast
    then have "of_int k / pow2 e = of_int (- m)" by (simp add: kj)
    then have "round_half_even (of_int k / pow2 e) = - m"
      by (simp only: round_half_even_of_int)
    moreover from m have "of_int m * pow2 e = (of_int j :: real)"
      using pow2_pos [of e] by (simp add: field_simps)
    ultimately show ?thesis by (simp add: kj)
  qed
  have "(of_int j :: real) \<le> of_int (2 ^ 53)" using j(2) by (simp only: of_int_le_iff)
  then have jr: "(of_int j :: real) \<le> 2 ^ 53" by simp
  have "(2::real) ^ 53 < 2 ^ 1024" by simp
  with jr have "(of_int j :: real) < 2 ^ 1024" by linarith
  then have "\<bar>of_int k :: real\<bar> < 2 ^ 1024" by (simp only: abs)
  then have b1: "\<not> 2 ^ 1024 \<le> (of_int k :: real)" and b2: "\<not> (of_int k :: real) \<le> - (2 ^ 1024)"
    by linarith+
  have ne: "(of_int k :: real) \<noteq> 0" using False by simp
  show ?thesis
    unfolding round64_def abs e_def [symmetric] Let_def
    by (simp only: y ne b1 b2 if_False)
qed

lemma round64_nonneg:
  assumes "0 \<le> x"
  shows "round64 x = PInf \<or> (\<exists>y. round64 x = Fin y \<and> 0 \<le> y)"
proof (cases "x = 0")
  case True
  then show ?thesis by (simp add: round64_def)
next
  case False
  define e where "e = max (ilog2 \<bar>x\<bar> - 52) (- 1074)"
  have "0 \<le> x / pow2 e" using assms pow2_pos [of e] by simp
  then have "0 \<le> round_half_even (x / pow2 e)" by (rule round_half_even_nonneg)
  then have "0 \<le> of_int (round_half_even (x / pow2 e)) * pow2 e"
    using pow2_pos [of e] by simp
  then show ?thesis
    using False unfolding round64_def e_def [symmetric]
    by (auto simp add: Let_def)
qed


lemma pow2_Suc: "pow2 (e + 1) = 2 * pow2 e"
proof (cases "0 \<le> e")
  case True
  then show ?thesis by (simp add: pow2_def nat_add_distrib)
next
  case False
  then have "nat (- e) = Suc (nat (- (e + 1)))" by simp
  with False show ?thesis by (simp add: pow2_def)
qed

lemma ilog2_bounds:
  assumes "0 < x"
  shows "pow2 (ilog2 x) \<le> x \<and> x < pow2 (ilog2 x + 1)"
proof (cases "1 \<le> x")
  case True
  define n where "n = \<lfloor>x\<rfloor>"
  have n: "1 \<le> n" "of_int n \<le> x" "x < of_int n + 1"
    using True by (simp_all add: n_def le_floor_iff)
  then have pos: "0 < n" by simp
  have b1: "1 \<le> bitlen n" using pos by (simp add: bitlen_alt_def)
  from bitlen_bounds [OF pos] have lo: "2 ^ nat (bitlen n - 1) \<le> n" and hi: "n < 2 ^ nat (bitlen n)"
    by simp_all
  have il: "ilog2 x = bitlen n - 1" using True by (simp add: ilog2_def n_def)
  have "pow2 (bitlen n - 1) = of_int (2 ^ nat (bitlen n - 1))"
    using b1 by (simp add: pow2_def)
  also have "\<dots> \<le> of_int n" using lo by (simp only: of_int_le_iff)
  finally have "pow2 (bitlen n - 1) \<le> of_int n" .
  with n(2) have "pow2 (bitlen n - 1) \<le> x" by linarith
  then have a: "pow2 (ilog2 x) \<le> x" by (simp only: il)
  from hi have "n + 1 \<le> 2 ^ nat (bitlen n)" by simp
  then have "(of_int (n + 1) :: real) \<le> of_int (2 ^ nat (bitlen n))" by (simp only: of_int_le_iff)
  then have "of_int n + 1 \<le> pow2 (bitlen n)"
    using b1 by (simp add: pow2_def)
  with n(3) have "x < pow2 (bitlen n)" by linarith
  then have "x < pow2 (ilog2 x + 1)" by (simp add: il)
  with a show ?thesis by simp
next
  case False
  with assms have x: "0 < x" "x < 1" by simp_all
  define y where "y = 1 / x"
  have y: "1 < y" using x by (simp add: y_def)
  define m where "m = \<lceil>y\<rceil> - 1"
  have m: "of_int m < y" "y \<le> of_int m + 1"
    unfolding m_def by linarith+
  have "1 \<le> m" using y unfolding m_def by linarith
  then have pos: "0 < m" by simp
  have b1: "1 \<le> bitlen m" using pos by (simp add: bitlen_alt_def)
  from bitlen_bounds [OF pos] have lo: "2 ^ nat (bitlen m - 1) \<le> m" and hi: "m < 2 ^ nat (bitlen m)"
    by simp_all
  have il: "ilog2 x = - bitlen m" using False by (simp add: ilog2_def m_def y_def)
  have "(of_int (2 ^ nat (bitlen m - 1)) :: real) \<le> of_int m" using lo by (simp only: of_int_le_iff)
  then have "(2::real) ^ nat (bitlen m - 1) \<le> of_int m" by simp
  with m(1) have ylo: "2 ^ nat (bitlen m - 1) < y" by linarith
  from hi have "m + 1 \<le> 2 ^ nat (bitlen m)" by simp
  then have "(of_int (m + 1) :: real) \<le> of_int (2 ^ nat (bitlen m))" by (simp only: of_int_le_iff)
  then have "of_int m + 1 \<le> (2::real) ^ nat (bitlen m)" by simp
  with m(2) have yhi: "y \<le> 2 ^ nat (bitlen m)" by linarith
  have p: "pow2 (- bitlen m) = 1 / 2 ^ nat (bitlen m)"
    using b1 by (simp add: pow2_def)
  have a: "pow2 (ilog2 x) \<le> x"
    using yhi x by (simp add: il p y_def field_simps)
  have q: "pow2 (- bitlen m + 1) = 1 / 2 ^ nat (bitlen m - 1)"
  proof (cases "bitlen m = 1")
    case True
    then show ?thesis by (simp add: pow2_def)
  next
    case False
    with b1 have "\<not> 0 \<le> - bitlen m + 1" "nat (- (- bitlen m + 1)) = nat (bitlen m - 1)" by simp_all
    then show ?thesis by (simp add: pow2_def)
  qed
  have "x < 1 / 2 ^ nat (bitlen m - 1)"
    using ylo x by (simp add: y_def field_simps)
  then have "x < pow2 (ilog2 x + 1)"
    by (simp only: il q)
  with a show ?thesis by simp
qed


section \<open>Properties of the award size categories\<close>

lemmas size_defs = award_size_category_def size_bins_def size_labels_def

text \<open>
  Claim C1, as the specification states it, puts an amount that lies on a boundary into the
  upper bucket. The loader's bins are closed on the right: the amount 10000 gets the label
  \<open>Micro (< $10K)\<close>, not \<open>Small ($10K - $100K)\<close>, and the amount 10000000 gets the
  label \<open>Large ($1M - $10M)\<close>, not \<open>Major (> $10M)\<close>.
\<close>

theorem award_size_category_boundary_counterexample:
  "award_size_category (Fin 10000) = Some ''Micro (< $10K)'' \<and>
   award_size_category (Fin 10000) \<noteq> Some ''Small ($10K - $100K)'' \<and>
   award_size_category (Fin 10000000) = Some ''Large ($1M - $10M)'' \<and>
   award_size_category (Fin 10000000) \<noteq> Some ''Major (> $10M)''"
  by (simp add: size_defs)

text \<open>
  Claim C1, amended: every amount above zero gets exactly one label, that of the interval
  among (0, 10K], (10K, 100K], (100K, 1M], (1M, 10M], (10M, \<infinity>) that holds it; an amount on
  a boundary belongs to the lower bucket.
\<close>

theorem award_size_category_right_closed:
  assumes "0 < x"
  shows "(award_size_category (Fin x) = Some ''Micro (< $10K)'') = (x \<le> 10000) \<and>
         (award_size_category (Fin x) = Some ''Small ($10K - $100K)'') = (10000 < x \<and> x \<le> 100000) \<and>
         (award_size_category (Fin x) = Some ''Medium ($100K - $1M)'') = (100000 < x \<and> x \<le> 1000000) \<and>
         (award_size_category (Fin x) = Some ''Large ($1M - $10M)'') = (1000000 < x \<and> x \<le> 10000000) \<and>
         (award_size_category (Fin x) = Some ''Major (> $10M)'') = (10000000 < x) \<and>
         award_size_category (Fin x) \<noteq> None"
  using assms by (auto simp add: size_defs)

theorem award_size_category_right_closed_witness:
  "(0::real) < 10000000 \<and> award_size_category (Fin 10000000) = Some ''Large ($1M - $10M)''"
proof -
  have pos: "(0::real) < 10000000" by simp
  from award_size_category_right_closed [OF pos]
  have "award_size_category (Fin 10000000) = Some ''Large ($1M - $10M)''" by simp
  with pos show ?thesis by simp
qed

section \<open>Properties of the agency names\<close>

text \<open>
  Claim C5: canonicalisation is idempotent on every string; every canonical name (every
  value of the synonym table) maps to itself; a name that is no key of the table passes
  through unchanged.
\<close>

theorem canonicalize_idempotent:
  "canonicalize (canonicalize x) = canonicalize x \<and>
   (\<forall>c \<in> set (map snd agency_mappings). canonicalize c = c) \<and>
   (x \<notin> set (map fst agency_mappings) \<longrightarrow> canonicalize x = x)"
proof (intro conjI)
  show "canonicalize (canonicalize x) = canonicalize x"
    by (auto simp add: canonicalize_def replace_value_def agency_mappings_def)
  show "\<forall>c \<in> set (map snd agency_mappings). canonicalize c = c"
    by (simp add: canonicalize_def replace_value_def agency_mappings_def)
  show "x \<notin> set (map fst agency_mappings) \<longrightarrow> canonicalize x = x"
    by (auto simp add: canonicalize_def replace_value_def map_of_eq_None_iff [symmetric])
qed

theorem canonicalize_idempotent_witness:
  "''Dept X'' \<notin> set (map fst agency_mappings) \<and> canonicalize ''Dept X'' = ''Dept X'' \<and>
   ''Department of Justice'' \<in> set (map snd agency_mappings) \<and>
   canonicalize ''Department of Justice'' = ''Department of Justice''"
proof -
  have a: "''Dept X'' \<notin> set (map fst agency_mappings)"
    by (simp add: agency_mappings_def)
  have b: "''Department of Justice'' \<in> set (map snd agency_mappings)"
    by (simp add: agency_mappings_def)
  from canonicalize_idempotent [of "''Dept X''"] a
  have c: "canonicalize ''Dept X'' = ''Dept X''" by blast
  from canonicalize_idempotent [of "''Dept X''"] b
  have d: "canonicalize ''Department of Justice'' = ''Department of Justice''" by blast
  from a b c d show ?thesis by blast
qed

section \<open>Properties of the theme labels\<close>

lemma str_replace_char:
  "str_replace [a] [b] s = map (\<lambda>c. if c = a then b else c) s"
  by (induction s) simp_all

lemma theme_prefix_length: "length ''theme_'' = 6"
  by simp

lemma startswith_theme:
  assumes "startswith col ''theme_''"
  shows "''theme_'' @ drop 6 col = col"
proof -
  from assms have "take (length ''theme_'') col = ''theme_''"
    by (simp only: startswith_def)
  then have "take 6 col = ''theme_''"
    by (simp only: theme_prefix_length)
  then show ?thesis
    by (metis append_take_drop_id)
qed

lemma str_replace_theme_prefix:
  "str_replace ''theme_'' [] (''theme_'' @ r) = str_replace ''theme_'' [] r"
  by simp

lemma lower_char_fix: "\<not> is_upper c \<Longrightarrow> lower_char c = c"
  by (auto simp add: is_upper_def lower_char_def ascii_uppercase_def ascii_lowercase_def)

lemma lower_upper_all: "\<forall>c \<in> set ascii_lowercase. lower_char (upper_char c) = c"
  by code_simp

lemma lower_upper_char: "is_lower c \<Longrightarrow> lower_char (upper_char c) = c"
  using lower_upper_all by (simp only: is_lower_def)

lemma str_lower_title_from:
  "\<forall>c \<in> set s. \<not> is_upper c \<Longrightarrow> str_lower (title_from prev s) = s"
  by (induction s arbitrary: prev)
     (simp_all add: str_lower_def lower_upper_char lower_char_fix)

lemma underscore_round_trip:
  "\<forall>c \<in> set s. c \<noteq> CHR '' '' \<Longrightarrow>
   map ((\<lambda>c. if c = CHR '' '' then CHR ''_'' else c) \<circ>
        (\<lambda>c. if c = CHR ''_'' then CHR '' '' else c)) s = s"
  by (induction s) auto

lemma theme_column_of_label:
  assumes sw: "startswith col ''theme_''"
    and b: "\<forall>c \<in> set (drop 6 col). \<not> is_upper c \<and> c \<noteq> CHR '' ''"
    and c: "str_replace ''theme_'' [] (drop 6 col) = drop 6 col"
  shows "theme_column_of (theme_label col) = col"
proof -
  define s where "s = drop 6 col"
  define sp where "sp = map (\<lambda>c. if c = CHR ''_'' then CHR '' '' else c) s"
  have up: "\<not> is_upper (CHR '' '')" by (simp add: is_upper_def ascii_uppercase_def)
  have col: "''theme_'' @ s = col" unfolding s_def by (rule startswith_theme [OF sw])
  have c': "str_replace ''theme_'' [] s = s" using c by (simp only: s_def)
  have b': "\<forall>c \<in> set s. \<not> is_upper c \<and> c \<noteq> CHR '' ''" using b by (simp only: s_def)
  have "str_replace ''theme_'' [] col = str_replace ''theme_'' [] (''theme_'' @ s)"
    by (simp only: col)
  also have "\<dots> = s" using c' by (simp only: str_replace_theme_prefix)
  finally have 1: "theme_label col = str_title sp"
    by (simp add: theme_label_def str_replace_char sp_def)
  have "\<forall>c \<in> set sp. \<not> is_upper c" using b' up by (auto simp add: sp_def)
  then have 2: "str_lower (str_title sp) = sp"
    by (simp add: str_title_def str_lower_title_from)
  have nsp: "\<forall>c \<in> set s. c \<noteq> CHR '' ''" using b' by blast
  have "str_replace '' '' ''_'' sp = map (\<lambda>c. if c = CHR '' '' then CHR ''_'' else c) sp"
    by (rule str_replace_char)
  also have "\<dots> = map ((\<lambda>c. if c = CHR '' '' then CHR ''_'' else c) \<circ>
                       (\<lambda>c. if c = CHR ''_'' then CHR '' '' else c)) s"
    by (simp only: sp_def map_map)
  also have "\<dots> = s" by (rule underscore_round_trip [OF nsp])
  finally have 3: "str_replace '' '' ''_'' sp = s" .
  have "theme_column_of (theme_label col) =
        ''theme_'' @ str_replace '' '' ''_'' (str_lower (theme_label col))"
    by (simp only: theme_column_of_def)
  also have "\<dots> = ''theme_'' @ s"
    by (simp only: 1 2 3)
  finally show ?thesis by (simp only: col)
qed

lemma get_col_present: "col \<in> set (columns df) \<Longrightarrow> \<exists>s. get_col df col = Inr s"
  by (cases "map_of df col") (auto simp add: get_col_def columns_def map_of_eq_None_iff)

text \<open>
  Claim C3 says that the label of every theme column maps back to a column of the table.
  A column name with an upper-case letter does not: the table with the one theme column
  \<open>theme_LGBTQ\<close> offers the label \<open>Lgbtq\<close>, and selecting it looks up the column
  \<open>theme_lgbtq\<close>, which the table does not have.
\<close>

theorem theme_label_lookup_counterexample:
  "theme_options [(''theme_LGBTQ'', BoolS [True])] = [''Lgbtq''] \<and>
   theme_filter [(''theme_LGBTQ'', BoolS [True])] [''Lgbtq''] [True] = Inl (KeyError ''theme_lgbtq'')"
  by code_simp

text \<open>
  Claim C3, amended: for every theme column whose name, after the prefix \<open>theme_\<close>, is
  ASCII text with no upper-case letter, no space and no further occurrence of \<open>theme_\<close>
  (removing \<open>theme_\<close> from it changes nothing), the label maps back to the column
  itself, so the lookup of the theme filter finds it.
\<close>

theorem theme_label_round_trip:
  assumes "col \<in> set (theme_columns df)"
    and "\<forall>c \<in> set (drop 6 col). is_ascii c \<and> \<not> is_upper c \<and> c \<noteq> CHR '' ''"
    and "str_replace ''theme_'' [] (drop 6 col) = drop 6 col"
  shows "theme_column_of (theme_label col) = col \<and>
         (\<exists>s. get_col df (theme_column_of (theme_label col)) = Inr s)"
proof -
  from assms(1) have sw: "startswith col ''theme_''" and mem: "col \<in> set (columns df)"
    by (simp_all add: theme_columns_def)
  from assms(2) have b: "\<forall>c \<in> set (drop 6 col). \<not> is_upper c \<and> c \<noteq> CHR '' ''"
    by blast
  have rt: "theme_column_of (theme_label col) = col"
    by (rule theme_column_of_label [OF sw b assms(3)])
  from get_col_present [OF mem] rt show ?thesis by simp
qed

theorem theme_label_round_trip_witness:
  "''theme_race_equity'' \<in> set (theme_columns [(''theme_race_equity'', BoolS [True])]) \<and>
   theme_label ''theme_race_equity'' = ''Race Equity'' \<and>
   theme_column_of (theme_label ''theme_race_equity'') = ''theme_race_equity''"
proof -
  have a: "''theme_race_equity'' \<in> set (theme_columns [(''theme_race_equity'', BoolS [True])])"
    by code_simp
  have b: "\<forall>c \<in> set (drop 6 ''theme_race_equity'').
             is_ascii c \<and> \<not> is_upper c \<and> c \<noteq> CHR '' ''"
    by code_simp
  have c: "str_replace ''theme_'' [] (drop 6 ''theme_race_equity'') = drop 6 ''theme_race_equity''"
    by code_simp
  have d: "theme_label ''theme_race_equity'' = ''Race Equity''"
    by code_simp
  from theme_label_round_trip [OF a b c] a d show ?thesis by blast
qed

section \<open>Properties of the theme filter\<close>

lemma theme_mask_or:
  assumes "\<forall>t \<in> set themes. get_col df (theme_column_of t) = Inr (BoolS (flags t)) \<and> length (flags t) = n"
    and "length acc = n"
  shows "\<exists>r. theme_mask df themes acc = Inr r \<and> length r = n \<and>
             (\<forall>i < n. r ! i = (acc ! i \<or> (\<exists>t \<in> set themes. flags t ! i)))"
  using assms
proof (induction themes arbitrary: acc)
  case Nil
  then show ?case by simp
next
  case (Cons t themes)
  from Cons.prems have col: "get_col df (theme_column_of t) = Inr (BoolS (flags t))"
    and len: "length (flags t) = n"
    and rest: "\<forall>u \<in> set themes. get_col df (theme_column_of u) = Inr (BoolS (flags u)) \<and> length (flags u) = n"
    by simp_all
  have acc': "length (mask_or acc (flags t)) = n"
    using Cons.prems(2) len by (simp add: mask_or_def)
  from Cons.IH [OF rest acc'] obtain r where
    r: "theme_mask df themes (mask_or acc (flags t)) = Inr r" "length r = n"
       "\<forall>i < n. r ! i = (mask_or acc (flags t) ! i \<or> (\<exists>u \<in> set themes. flags u ! i))"
    by blast
  have step: "theme_mask df (t # themes) acc = Inr r"
    using col r(1) by (simp add: and_then_def)
  have "\<forall>i < n. mask_or acc (flags t) ! i = (acc ! i \<or> flags t ! i)"
    using Cons.prems(2) len by (simp add: mask_or_def)
  with r(3) have "\<forall>i < n. r ! i = (acc ! i \<or> (\<exists>u \<in> set (t # themes). flags u ! i))"
    by auto
  with step r(2) show ?case by blast
qed

text \<open>
  Claim C6: when every selected label names a boolean column of the table, the theme filter
  keeps a row exactly when the selection is empty or at least one selected theme's flag is
  true for the row (and the row passed the filters before it).
\<close>

theorem theme_filter_or:
  assumes "\<forall>t \<in> set themes. get_col df (theme_column_of t) = Inr (BoolS (flags t)) \<and>
                            length (flags t) = nrows df"
    and "length msk = nrows df"
  shows "\<exists>r. theme_filter df themes msk = Inr r \<and> length r = nrows df \<and>
             (\<forall>i < nrows df. r ! i = (msk ! i \<and> (themes = [] \<or> (\<exists>t \<in> set themes. flags t ! i))))"
proof (cases "themes = []")
  case True
  with assms(2) show ?thesis by (simp add: theme_filter_def)
next
  case False
  have "length (replicate (nrows df) False) = nrows df" by simp
  from theme_mask_or [OF assms(1) this] obtain tm where
    tm: "theme_mask df themes (replicate (nrows df) False) = Inr tm" "length tm = nrows df"
        "\<forall>i < nrows df. tm ! i = (replicate (nrows df) False ! i \<or> (\<exists>t \<in> set themes. flags t ! i))"
    by blast
  have res: "theme_filter df themes msk = Inr (mask_and msk tm)"
    using False tm(1) by (simp add: theme_filter_def and_then_def)
  have "length (mask_and msk tm) = nrows df"
    using assms(2) tm(2) by (simp add: mask_and_def)
  moreover have "\<forall>i < nrows df. mask_and msk tm ! i = (msk ! i \<and> (themes = [] \<or> (\<exists>t \<in> set themes. flags t ! i)))"
    using assms(2) tm(2) tm(3) False by (simp add: mask_and_def)
  ultimately show ?thesis using res by blast
qed

text \<open>
  The example of the claim: a row with \<open>theme_a\<close> true and \<open>theme_b\<close> false passes
  the selections {A} and {A, B} and fails the selection {B}.
\<close>

theorem theme_filter_or_witness:
  "theme_filter [(''theme_a'', BoolS [True]), (''theme_b'', BoolS [False])] [''A''] [True] = Inr [True] \<and>
   theme_filter [(''theme_a'', BoolS [True]), (''theme_b'', BoolS [False])] [''A'', ''B''] [True] = Inr [True] \<and>
   theme_filter [(''theme_a'', BoolS [True]), (''theme_b'', BoolS [False])] [''B''] [True] = Inr [False]"
proof -
  let ?df = "[(''theme_a'', BoolS [True]), (''theme_b'', BoolS [False])]"
  let ?flags = "\<lambda>t. [t = ''A'']"
  have n: "nrows ?df = 1" by (simp add: nrows_def)
  have ca: "theme_column_of ''A'' = ''theme_a''" by code_simp
  have cb: "theme_column_of ''B'' = ''theme_b''" by code_simp
  have ga: "get_col ?df ''theme_a'' = Inr (BoolS [True])" by (simp add: get_col_def)
  have gb: "get_col ?df ''theme_b'' = Inr (BoolS [False])" by (simp add: get_col_def)
  have m: "length [True] = nrows ?df" using n by simp
  have hA: "\<forall>t \<in> set [''A'']. get_col ?df (theme_column_of t) = Inr (BoolS (?flags t)) \<and>
                            length (?flags t) = nrows ?df"
    using n ca ga by simp
  have hAB: "\<forall>t \<in> set [''A'', ''B'']. get_col ?df (theme_column_of t) = Inr (BoolS (?flags t)) \<and>
                            length (?flags t) = nrows ?df"
    using n ca cb ga gb by simp
  have hB: "\<forall>t \<in> set [''B'']. get_col ?df (theme_column_of t) = Inr (BoolS (?flags t)) \<and>
                            length (?flags t) = nrows ?df"
    using n cb gb by simp
  have one: "\<And>r b. length r = 1 \<Longrightarrow> r ! 0 = b \<Longrightarrow> r = [b]"
    by (metis One_nat_def length_0_conv length_Suc_conv nth_Cons_0)
  from theme_filter_or [OF hA m] obtain r1 where
    r1: "theme_filter ?df [''A''] [True] = Inr r1" "length r1 = 1" "r1 ! 0 = True"
    using n by auto
  from theme_filter_or [OF hAB m] obtain r2 where
    r2: "theme_filter ?df [''A'', ''B''] [True] = Inr r2" "length r2 = 1" "r2 ! 0 = True"
    using n by auto
  from theme_filter_or [OF hB m] obtain r3 where
    r3: "theme_filter ?df [''B''] [True] = Inr r3" "length r3 = 1" "r3 ! 0 = False"
    using n by auto
  from one [OF r1(2) r1(3)] one [OF r2(2) r2(3)] one [OF r3(2) r3(3)] r1(1) r2(1) r3(1)
  show ?thesis by simp
qed
section \<open>Properties of the loader\<close>

lemma and_then_Inr: "(and_then m f = Inr y) = (\<exists>x. m = Inr x \<and> f x = Inr y)"
  by (cases m) (simp_all add: and_then_def)

lemma and_then_Inl: "m = Inl e \<Longrightarrow> and_then m f = Inl e"
  by (simp add: and_then_def)

lemma not_Inr_is_Inl: "(\<forall>y. r \<noteq> Inr y) \<Longrightarrow> \<exists>e. r = Inl (e::error)"
  by (cases r) simp_all

lemma map_of_set_col: "map_of (set_col df c s) = (map_of df)(c \<mapsto> s)"
  by (induction df c s rule: set_col.induct) auto

lemma get_col_Inr: "(get_col df c = Inr s) = (map_of df c = Some s)"
  by (cases "map_of df c") (simp_all add: get_col_def)

lemma columns_map_of: "(c \<in> set (columns df)) = (map_of df c \<noteq> None)"
  by (simp add: columns_def map_of_eq_None_iff)

lemma convert_dates_Inr:
  assumes "convert_dates to_datetime cols df = Inr df'" and "distinct cols"
  shows "(\<forall>c. c \<notin> set cols \<longrightarrow> map_of df' c = map_of df c) \<and>
         (\<forall>c \<in> set cols. \<exists>s s'. map_of df c = Some s \<and> to_datetime s = Inr s' \<and> map_of df' c = Some s')"
  using assms
proof (induction cols arbitrary: df)
  case Nil
  then show ?case by simp
next
  case (Cons col cols)
  from Cons.prems(1) obtain s s' where
    s: "map_of df col = Some s" and s': "to_datetime s = Inr s'"
    and rest: "convert_dates to_datetime cols (set_col df col s') = Inr df'"
    by (auto simp add: and_then_Inr get_col_Inr)
  from Cons.prems(2) have d: "distinct cols" and nin: "col \<notin> set cols" by simp_all
  from Cons.IH [OF rest d] have
    other: "\<forall>c. c \<notin> set cols \<longrightarrow> map_of df' c = map_of (set_col df col s') c"
    and these: "\<forall>c \<in> set cols. \<exists>t t'. map_of (set_col df col s') c = Some t \<and> to_datetime t = Inr t' \<and> map_of df' c = Some t'"
    by blast+
  have a: "\<forall>c. c \<notin> set (col # cols) \<longrightarrow> map_of df' c = map_of df c"
    using other by (simp add: map_of_set_col)
  have b: "\<exists>t t'. map_of df col = Some t \<and> to_datetime t = Inr t' \<and> map_of df' col = Some t'"
    using other nin s s' by (simp add: map_of_set_col)
  have c: "\<forall>c \<in> set cols. \<exists>t t'. map_of df c = Some t \<and> to_datetime t = Inr t' \<and> map_of df' c = Some t'"
  proof
    fix c assume c: "c \<in> set cols"
    with nin have "c \<noteq> col" by auto
    with these c show "\<exists>t t'. map_of df c = Some t \<and> to_datetime t = Inr t' \<and> map_of df' c = Some t'"
      by (auto simp add: map_of_set_col)
  qed
  from a b c show ?case by simp
qed

lemma floats_of_Inr:
  "floats_of xs = Inr ys \<Longrightarrow>
   length ys = length xs \<and>
   (\<forall>i < length xs. (xs ! i = None \<longrightarrow> ys ! i = NaN) \<and>
                        (\<forall>s. xs ! i = Some s \<longrightarrow> py_float s = Some (ys ! i)))"
proof (induction xs arbitrary: ys rule: floats_of.induct)
  case 1
  then show ?case by simp
next
  case (2 xs)
  from "2.prems" obtain zs where zs: "floats_of xs = Inr zs" and ys: "ys = NaN # zs"
    by (auto simp add: and_then_Inr)
  from "2.IH" [OF zs] ys show ?case
    by (auto simp add: nth_Cons split: nat.splits)
next
  case (3 s xs)
  from "3.prems" obtain a zs where a: "py_float s = Some a"
    and zs: "floats_of xs = Inr zs" and ys: "ys = a # zs"
    by (auto simp add: and_then_Inr split: option.splits)
  from "3.IH" [OF a zs] ys a show ?case
    by (auto simp add: nth_Cons split: nat.splits)
qed

lemma clean_award_amount_Inr:
  "clean_award_amount df = Inr df' \<Longrightarrow>
   \<exists>s s'. map_of df ''award_amount'' = Some s \<and> astype_float (replace_currency s) = Inr s' \<and>
          df' = set_col df ''award_amount'' s'"
  by (auto simp add: clean_award_amount_def and_then_Inr get_col_Inr)

lemma consolidate_agencies_Inr:
  "consolidate_agencies df = Inr df' \<Longrightarrow>
   \<exists>s. map_of df ''awarding_agency_name'' = Some s \<and>
       df' = set_col df ''awarding_agency_name'' (replace_values agency_mappings s)"
  by (auto simp add: consolidate_agencies_def and_then_Inr get_col_Inr)

lemma add_contract_duration_Inr:
  "add_contract_duration df = Inr df' \<Longrightarrow>
   (map_of df ''contract_duration_days'' \<noteq> None \<and> df' = df) \<or>
   (map_of df ''contract_duration_days'' = None \<and>
    (\<exists>e s d. map_of df ''contract_end_date'' = Some e \<and> map_of df ''contract_start_date'' = Some s \<and>
             duration_days e s = Inr d \<and> df' = set_col df ''contract_duration_days'' d))"
  by (auto simp add: add_contract_duration_def and_then_Inr get_col_Inr columns_map_of
           split: if_splits)

lemma add_award_size_category_Inr:
  "add_award_size_category df = Inr df' \<Longrightarrow>
   (map_of df ''award_size_category'' \<noteq> None \<and> df' = df) \<or>
   (map_of df ''award_size_category'' = None \<and>
    (\<exists>a c. map_of df ''award_amount'' = Some a \<and> cut_sizes a = Inr c \<and>
           df' = set_col df ''award_size_category'' c))"
  by (auto simp add: add_award_size_category_def and_then_Inr get_col_Inr columns_map_of
           split: if_splits)

lemma load_data_Inr:
  "load_data to_datetime csv = Inr df' \<Longrightarrow>
   \<exists>df df1 df2 df3 df4. csv = Inr df \<and>
     convert_dates to_datetime date_columns df = Inr df1 \<and>
     clean_award_amount df1 = Inr df2 \<and>
     consolidate_agencies df2 = Inr df3 \<and>
     add_contract_duration df3 = Inr df4 \<and>
     add_award_size_category df4 = Inr df'"
  by (simp add: load_data_def and_then_Inr)

lemma load_data_success:
  assumes "load_data to_datetime csv = Inr df'"
  shows "\<exists>df df1 s' ag df4.
     csv = Inr df \<and>
     (\<forall>c. c \<notin> set date_columns \<longrightarrow> map_of df1 c = map_of df c) \<and>
     (\<forall>c \<in> set date_columns. \<exists>s t. map_of df c = Some s \<and> to_datetime s = Inr t \<and> map_of df1 c = Some t) \<and>
     (\<exists>s. map_of df ''award_amount'' = Some s \<and> astype_float (replace_currency s) = Inr s') \<and>
     map_of df ''awarding_agency_name'' = Some ag \<and>
     add_contract_duration
       (set_col (set_col df1 ''award_amount'' s') ''awarding_agency_name''
                (replace_values agency_mappings ag)) = Inr df4 \<and>
     add_award_size_category df4 = Inr df'"
proof -
  from load_data_Inr [OF assms] obtain df df1 df2 df3 df4 where
    csv: "csv = Inr df"
    and 1: "convert_dates to_datetime date_columns df = Inr df1"
    and 2: "clean_award_amount df1 = Inr df2"
    and 3: "consolidate_agencies df2 = Inr df3"
    and 4: "add_contract_duration df3 = Inr df4"
    and 5: "add_award_size_category df4 = Inr df'"
    by blast
  have dist: "distinct date_columns" by (simp add: date_columns_def)
  from convert_dates_Inr [OF 1 dist] have
    other: "\<forall>c. c \<notin> set date_columns \<longrightarrow> map_of df1 c = map_of df c"
    and dates: "\<forall>c \<in> set date_columns. \<exists>s t. map_of df c = Some s \<and> to_datetime s = Inr t \<and> map_of df1 c = Some t"
    by blast+
  from clean_award_amount_Inr [OF 2] obtain s s' where
    s: "map_of df1 ''award_amount'' = Some s" "astype_float (replace_currency s) = Inr s'"
       "df2 = set_col df1 ''award_amount'' s'"
    by blast
  from consolidate_agencies_Inr [OF 3] obtain ag where
    ag: "map_of df2 ''awarding_agency_name'' = Some ag"
        "df3 = set_col df2 ''awarding_agency_name'' (replace_values agency_mappings ag)"
    by blast
  have am: "map_of df ''award_amount'' = Some s"
    using other s(1) by (simp add: date_columns_def)
  have "map_of df1 ''awarding_agency_name'' = Some ag"
    using ag(1) s(3) by (simp add: map_of_set_col)
  then have agm: "map_of df ''awarding_agency_name'' = Some ag"
    using other by (simp add: date_columns_def)
  from csv other dates am s(2) agm 4 5 ag(2) s(3) show ?thesis by blast
qed


text \<open>
  Claim C10: a \<open>contract_duration_days\<close> or \<open>award_size_category\<close> column of the
  input comes out of the load as it went in; the loader computes the column (from the
  loaded dates, or from the loaded amounts) only when the input has none.
\<close>

theorem load_data_keeps_derived_columns:
  assumes "load_data to_datetime (Inr df) = Inr df'"
  shows "(\<forall>s. get_col df ''contract_duration_days'' = Inr s \<longrightarrow>
              get_col df' ''contract_duration_days'' = Inr s) \<and>
         (\<forall>s. get_col df ''award_size_category'' = Inr s \<longrightarrow>
              get_col df' ''award_size_category'' = Inr s) \<and>
         (''contract_duration_days'' \<notin> set (columns df) \<longrightarrow>
            (\<exists>e s d. get_col df' ''contract_end_date'' = Inr e \<and>
                     get_col df' ''contract_start_date'' = Inr s \<and>
                     duration_days e s = Inr d \<and>
                     get_col df' ''contract_duration_days'' = Inr d)) \<and>
         (''award_size_category'' \<notin> set (columns df) \<longrightarrow>
            (\<exists>a c. get_col df' ''award_amount'' = Inr a \<and> cut_sizes a = Inr c \<and>
                   get_col df' ''award_size_category'' = Inr c))"
proof -
  from load_data_success [OF assms] obtain df1 s' ag df4 where
    other: "\<forall>c. c \<notin> set date_columns \<longrightarrow> map_of df1 c = map_of df c"
    and 4: "add_contract_duration
              (set_col (set_col df1 ''award_amount'' s') ''awarding_agency_name''
                       (replace_values agency_mappings ag)) = Inr df4"
    and 5: "add_award_size_category df4 = Inr df'"
    by auto
  define df3 where "df3 = set_col (set_col df1 ''award_amount'' s') ''awarding_agency_name''
                       (replace_values agency_mappings ag)"
  have dur3: "map_of df3 ''contract_duration_days'' = map_of df ''contract_duration_days''"
    using other by (simp add: df3_def map_of_set_col date_columns_def)
  have cat3: "map_of df3 ''award_size_category'' = map_of df ''award_size_category''"
    using other by (simp add: df3_def map_of_set_col date_columns_def)
  from 4 have s4: "add_contract_duration df3 = Inr df4" by (simp only: df3_def)
  have cat4: "map_of df4 ''award_size_category'' = map_of df ''award_size_category''"
    using add_contract_duration_Inr [OF s4] cat3 by (auto simp add: map_of_set_col)
  have dur5: "map_of df' ''contract_duration_days'' = map_of df4 ''contract_duration_days''"
    using add_award_size_category_Inr [OF 5] by (auto simp add: map_of_set_col)
  have end5: "map_of df' ''contract_end_date'' = map_of df4 ''contract_end_date''"
    using add_award_size_category_Inr [OF 5] by (auto simp add: map_of_set_col)
  have start5: "map_of df' ''contract_start_date'' = map_of df4 ''contract_start_date''"
    using add_award_size_category_Inr [OF 5] by (auto simp add: map_of_set_col)
  have a: "\<forall>s. get_col df ''contract_duration_days'' = Inr s \<longrightarrow>
              get_col df' ''contract_duration_days'' = Inr s"
    using add_contract_duration_Inr [OF s4] dur3 dur5 by (auto simp add: get_col_Inr)
  have b: "\<forall>s. get_col df ''award_size_category'' = Inr s \<longrightarrow>
              get_col df' ''award_size_category'' = Inr s"
    using add_award_size_category_Inr [OF 5] cat4 by (auto simp add: get_col_Inr)
  have c: "''contract_duration_days'' \<notin> set (columns df) \<longrightarrow>
            (\<exists>e s d. get_col df' ''contract_end_date'' = Inr e \<and>
                     get_col df' ''contract_start_date'' = Inr s \<and>
                     duration_days e s = Inr d \<and>
                     get_col df' ''contract_duration_days'' = Inr d)"
    using add_contract_duration_Inr [OF s4] dur3 dur5 end5 start5
    by (auto simp add: get_col_Inr columns_map_of map_of_set_col)
  have d: "''award_size_category'' \<notin> set (columns df) \<longrightarrow>
            (\<exists>a c. get_col df' ''award_amount'' = Inr a \<and> cut_sizes a = Inr c \<and>
                   get_col df' ''award_size_category'' = Inr c)"
    using add_award_size_category_Inr [OF 5] cat4
    by (auto simp add: get_col_Inr columns_map_of map_of_set_col)
  from a b c d show ?thesis by blast
qed

lemmas float_defs = py_float_def strip_currency_def str_strip_def is_space_def parse_absfloat_def
  str_lower_def lower_char_def ascii_uppercase_def ascii_lowercase_def parse_floatnumber_def
  parse_number_def parse_exponent_def scale10_def is_digit_def digits_value_def digit_value_def

lemmas load_defs = load_data_def and_then_def date_columns_def get_col_def
  clean_award_amount_def consolidate_agencies_def add_contract_duration_def
  add_award_size_category_def columns_def duration_days_def days_series_def days_between_def
  ns_per_day_def replace_value_def agency_mappings_def

text \<open>
  An input with a duration column and no size column: the duration 99 stays, although the
  dates give 0 days, and the size category is computed.
\<close>

theorem load_data_keeps_derived_columns_witness:
  "get_col [(''award_amount'', ObjS [Some ''$25,000'']),
            (''awarding_agency_name'', ObjS [Some ''Department of Justice (DOJ)'']),
            (''action_date'', DateS [Some 0]),
            (''contract_start_date'', DateS [Some 0]),
            (''contract_end_date'', DateS [Some 0]),
            (''contract_duration_days'', IntS [99])] ''contract_duration_days'' = Inr (IntS [99]) \<and>
   load_data Inr (Inr [(''award_amount'', ObjS [Some ''$25,000'']),
            (''awarding_agency_name'', ObjS [Some ''Department of Justice (DOJ)'']),
            (''action_date'', DateS [Some 0]),
            (''contract_start_date'', DateS [Some 0]),
            (''contract_end_date'', DateS [Some 0]),
            (''contract_duration_days'', IntS [99])])
     = Inr [(''award_amount'', FloatS [Fin 25000]),
            (''awarding_agency_name'', ObjS [Some ''Department of Justice'']),
            (''action_date'', DateS [Some 0]),
            (''contract_start_date'', DateS [Some 0]),
            (''contract_end_date'', DateS [Some 0]),
            (''contract_duration_days'', IntS [99]),
            (''award_size_category'', ObjS [Some ''Small ($10K - $100K)''])] \<and>
   get_col [(''award_amount'', FloatS [Fin 25000]),
            (''awarding_agency_name'', ObjS [Some ''Department of Justice'']),
            (''action_date'', DateS [Some 0]),
            (''contract_start_date'', DateS [Some 0]),
            (''contract_end_date'', DateS [Some 0]),
            (''contract_duration_days'', IntS [99]),
            (''award_size_category'', ObjS [Some ''Small ($10K - $100K)''])]
           ''contract_duration_days'' = Inr (IntS [99])"
proof -
  let ?df = "[(''award_amount'', ObjS [Some ''$25,000'']),
            (''awarding_agency_name'', ObjS [Some ''Department of Justice (DOJ)'']),
            (''action_date'', DateS [Some 0]),
            (''contract_start_date'', DateS [Some 0]),
            (''contract_end_date'', DateS [Some 0]),
            (''contract_duration_days'', IntS [99])]"
  let ?df' = "[(''award_amount'', FloatS [Fin 25000]),
            (''awarding_agency_name'', ObjS [Some ''Department of Justice'']),
            (''action_date'', DateS [Some 0]),
            (''contract_start_date'', DateS [Some 0]),
            (''contract_end_date'', DateS [Some 0]),
            (''contract_duration_days'', IntS [99]),
            (''award_size_category'', ObjS [Some ''Small ($10K - $100K)''])]"
  have before: "get_col ?df ''contract_duration_days'' = Inr (IntS [99])"
    by (simp add: get_col_def)
  have "round64 (real_of_int 25000) = Fin (real_of_int 25000)"
    by (rule round64_of_int) simp
  then have pf: "py_float (strip_currency ''$25,000'') = Some (Fin 25000)"
    by (simp add: float_defs)
  have sc: "strip_currency ''$25,000'' = ''25000''"
    by (simp add: strip_currency_def)
  have load: "load_data Inr (Inr ?df) = Inr ?df'"
    using pf by (simp add: load_defs sc size_defs)
  from load_data_keeps_derived_columns [OF load] before
  have "get_col ?df' ''contract_duration_days'' = Inr (IntS [99])"
    by blast
  with before load show ?thesis by blast
qed


lemma load_data_amounts:
  assumes load: "load_data to_datetime (Inr df) = Inr df'"
    and cells: "get_col df ''award_amount'' = Inr (ObjS cells)"
  shows "\<exists>vs. get_col df' ''award_amount'' = Inr (FloatS vs) \<and> length vs = length cells \<and>
              (\<forall>i < length cells.
                 (cells ! i = None \<longrightarrow> vs ! i = NaN) \<and>
                 (\<forall>s. cells ! i = Some s \<longrightarrow> py_float (strip_currency s) = Some (vs ! i)))"
proof -
  from load_data_success [OF load] obtain df1 s' ag df4 where
    am: "\<exists>s. map_of df ''award_amount'' = Some s \<and> astype_float (replace_currency s) = Inr s'"
    and 4: "add_contract_duration
              (set_col (set_col df1 ''award_amount'' s') ''awarding_agency_name''
                       (replace_values agency_mappings ag)) = Inr df4"
    and 5: "add_award_size_category df4 = Inr df'"
    by auto
  from am cells have "astype_float (replace_currency (ObjS cells)) = Inr s'"
    by (auto simp add: get_col_Inr)
  then obtain vs where vs: "floats_of (map (map_option strip_currency) cells) = Inr vs"
    and s': "s' = FloatS vs"
    by (auto simp add: and_then_Inr)
  have "map_of df4 ''award_amount'' = Some s'"
    using add_contract_duration_Inr [OF 4] by (auto simp add: map_of_set_col)
  then have "map_of df' ''award_amount'' = Some s'"
    using add_award_size_category_Inr [OF 5] by (auto simp add: map_of_set_col)
  then have out: "get_col df' ''award_amount'' = Inr (FloatS vs)"
    using s' by (simp add: get_col_Inr)
  from floats_of_Inr [OF vs] have len: "length vs = length cells"
    and each: "\<forall>i < length cells.
                 (map (map_option strip_currency) cells ! i = None \<longrightarrow> vs ! i = NaN) \<and>
                 (\<forall>s. map (map_option strip_currency) cells ! i = Some s \<longrightarrow> py_float s = Some (vs ! i))"
    by simp_all
  have "\<forall>i < length cells.
                 (cells ! i = None \<longrightarrow> vs ! i = NaN) \<and>
                 (\<forall>s. cells ! i = Some s \<longrightarrow> py_float (strip_currency s) = Some (vs ! i))"
    using each by simp
  with out len show ?thesis by blast
qed

lemma load_data_bad_amount:
  assumes cells: "get_col df ''award_amount'' = Inr (ObjS cells)"
    and bad: "Some t \<in> set cells" "py_float (strip_currency t) = None"
  shows "\<exists>e. load_data to_datetime (Inr df) = Inl e"
proof (rule not_Inr_is_Inl, rule allI, rule notI)
  fix df'
  assume load: "load_data to_datetime (Inr df) = Inr df'"
  from load_data_amounts [OF load cells] obtain vs where
    each: "\<forall>i < length cells. \<forall>s. cells ! i = Some s \<longrightarrow> py_float (strip_currency s) = Some (vs ! i)"
    by blast
  from bad(1) obtain i where "i < length cells" "cells ! i = Some t"
    by (auto simp add: in_set_conv_nth)
  with each have "py_float (strip_currency t) = Some (vs ! i)" by blast
  with bad(2) show False by simp
qed

text \<open>What the parser accepts, and the sign of what it returns.\<close>

lemma digits_fold_nonneg:
  "0 \<le> n \<Longrightarrow> 0 \<le> foldl (\<lambda>n c. 10 * n + int (digit_value c)) n xs"
  by (induction xs arbitrary: n) simp_all

lemma digits_value_nonneg: "0 \<le> digits_value s"
  by (simp add: digits_value_def digits_fold_nonneg)

lemma digits_fold_append:
  "foldl (\<lambda>n c. 10 * n + int (digit_value c)) n xs =
   n * 10 ^ length xs + foldl (\<lambda>n c. 10 * n + int (digit_value c)) 0 xs"
proof (induction xs arbitrary: n)
  case Nil
  then show ?case by simp
next
  case (Cons x xs)
  define f where "f = (\<lambda>n c. 10 * n + int (digit_value c))"
  define d where "d = int (digit_value x)"
  have ih: "\<And>k. foldl f k xs = k * 10 ^ length xs + foldl f 0 xs"
    unfolding f_def by (rule Cons.IH)
  have "foldl f n (x # xs) = foldl f (10 * n + d) xs"
    by (simp add: f_def d_def)
  also have "\<dots> = (10 * n + d) * 10 ^ length xs + foldl f 0 xs"
    by (rule ih)
  finally have a: "foldl f n (x # xs) = (10 * n + d) * 10 ^ length xs + foldl f 0 xs" .
  have "foldl f 0 (x # xs) = foldl f d xs"
    by (simp add: f_def d_def)
  also have "\<dots> = d * 10 ^ length xs + foldl f 0 xs"
    by (rule ih)
  finally have b: "foldl f 0 (x # xs) = d * 10 ^ length xs + foldl f 0 xs" .
  have "foldl f n (x # xs) = n * 10 ^ length (x # xs) + foldl f 0 (x # xs)"
    unfolding a b by (simp add: algebra_simps)
  then show ?case by (simp only: f_def)
qed

lemma digits_value_append:
  "digits_value (a @ b) = digits_value a * 10 ^ length (filter is_digit b) + digits_value b"
  unfolding digits_value_def filter_append foldl_append
  by (rule digits_fold_append)

lemma parse_number_unfold:
  "parse_number s =
     (case dropWhile (\<lambda>c. c \<noteq> CHR ''.'') s of
        [] \<Rightarrow> (if digitpart_ok (takeWhile (\<lambda>c. c \<noteq> CHR ''.'') s)
               then Some (real_of_int (digits_value (takeWhile (\<lambda>c. c \<noteq> CHR ''.'') s))) else None)
      | _ # fp \<Rightarrow>
          (if (digitpart_ok fp \<and> (takeWhile (\<lambda>c. c \<noteq> CHR ''.'') s = [] \<or>
                                    digitpart_ok (takeWhile (\<lambda>c. c \<noteq> CHR ''.'') s))) \<or>
              (digitpart_ok (takeWhile (\<lambda>c. c \<noteq> CHR ''.'') s) \<and> fp = [])
           then Some (real_of_int (digits_value (takeWhile (\<lambda>c. c \<noteq> CHR ''.'') s))
                      + real_of_int (digits_value fp) / 10 ^ length (filter is_digit fp))
           else None))"
  unfolding parse_number_def Let_def by (rule refl)

lemma parse_number_Some:
  assumes "parse_number s = Some m"
  shows "(digitpart_ok s \<and> m = real_of_int (digits_value s)) \<or>
         (\<exists>ip fp. s = ip @ CHR ''.'' # fp \<and> CHR ''.'' \<notin> set ip \<and>
                   ((digitpart_ok fp \<and> (ip = [] \<or> digitpart_ok ip)) \<or> (digitpart_ok ip \<and> fp = [])) \<and>
                   m = real_of_int (digits_value ip)
                       + real_of_int (digits_value fp) / 10 ^ length (filter is_digit fp))"
proof -
  define P where "P = (\<lambda>c. c \<noteq> CHR ''.'')"
  define ip where "ip = takeWhile P s"
  have split: "s = ip @ dropWhile P s" by (simp only: ip_def takeWhile_dropWhile_id)
  have nodot: "CHR ''.'' \<notin> set ip"
  proof
    assume "CHR ''.'' \<in> set ip"
    then have "P (CHR ''.'')" unfolding ip_def by (rule set_takeWhileD [THEN conjunct2])
    then show False by (simp add: P_def)
  qed
  show ?thesis
  proof (cases "dropWhile P s")
    case Nil
    with split have s: "s = ip" by simp
    from assms have "(if digitpart_ok ip then Some (real_of_int (digits_value ip)) else None) = Some m"
      by (simp only: parse_number_unfold P_def [symmetric] ip_def [symmetric] Nil list.case)
    then have "digitpart_ok ip \<and> m = real_of_int (digits_value ip)"
      by (simp split: if_splits)
    with s show ?thesis by simp
  next
    case (Cons c fp)
    have "\<not> P c" using hd_dropWhile [of P s] Cons by simp
    then have c: "c = CHR ''.''" by (simp add: P_def)
    from split Cons c have s: "s = ip @ CHR ''.'' # fp" by simp
    from assms have
      "(if (digitpart_ok fp \<and> (ip = [] \<or> digitpart_ok ip)) \<or> (digitpart_ok ip \<and> fp = [])
        then Some (real_of_int (digits_value ip)
                   + real_of_int (digits_value fp) / 10 ^ length (filter is_digit fp))
        else None) = Some m"
      by (simp only: parse_number_unfold P_def [symmetric] ip_def [symmetric] Cons list.case)
    then have "((digitpart_ok fp \<and> (ip = [] \<or> digitpart_ok ip)) \<or> (digitpart_ok ip \<and> fp = [])) \<and>
               m = real_of_int (digits_value ip)
                   + real_of_int (digits_value fp) / 10 ^ length (filter is_digit fp)"
      by (simp split: if_splits)
    with s nodot show ?thesis by blast
  qed
qed

lemma parse_number_nonneg: "parse_number s = Some m \<Longrightarrow> 0 \<le> m"
  by (drule parse_number_Some) (auto simp add: digits_value_nonneg)

lemma scale10_nonneg: "0 \<le> m \<Longrightarrow> 0 \<le> scale10 m e"
  by (simp add: scale10_def)

lemma parse_floatnumber_unfold:
  "parse_floatnumber s =
     (case dropWhile (\<lambda>c. \<not> (c = CHR ''e'' \<or> c = CHR ''E'')) s of
        [] \<Rightarrow> parse_number (takeWhile (\<lambda>c. \<not> (c = CHR ''e'' \<or> c = CHR ''E'')) s)
      | _ # ex \<Rightarrow>
          (case (parse_number (takeWhile (\<lambda>c. \<not> (c = CHR ''e'' \<or> c = CHR ''E'')) s),
                 parse_exponent ex) of
             (Some m, Some e) \<Rightarrow> Some (scale10 m e)
           | _ \<Rightarrow> None))"
  unfolding parse_floatnumber_def Let_def by (rule refl)

lemma parse_floatnumber_Some:
  assumes "parse_floatnumber s = Some x"
  shows "parse_number s = Some x \<or>
         (\<exists>mant c ex m e. s = mant @ c # ex \<and> (c = CHR ''e'' \<or> c = CHR ''E'') \<and>
                           parse_number mant = Some m \<and> parse_exponent ex = Some e \<and>
                           x = scale10 m e)"
proof -
  define P where "P = (\<lambda>c. \<not> (c = CHR ''e'' \<or> c = CHR ''E''))"
  define mant where "mant = takeWhile P s"
  have split: "s = mant @ dropWhile P s" by (simp only: mant_def takeWhile_dropWhile_id)
  show ?thesis
  proof (cases "dropWhile P s")
    case Nil
    with split have s: "s = mant" by simp
    from assms have "parse_number mant = Some x"
      by (simp only: parse_floatnumber_unfold P_def [symmetric] mant_def [symmetric] Nil list.case)
    with s show ?thesis by simp
  next
    case (Cons c ex)
    have "\<not> P c" using hd_dropWhile [of P s] Cons by simp
    then have c: "c = CHR ''e'' \<or> c = CHR ''E''" by (simp add: P_def)
    from split Cons have s: "s = mant @ c # ex" by simp
    from assms have
      "(case (parse_number mant, parse_exponent ex) of
          (Some m, Some e) \<Rightarrow> Some (scale10 m e) | _ \<Rightarrow> None) = Some x"
      by (simp only: parse_floatnumber_unfold P_def [symmetric] mant_def [symmetric] Cons list.case)
    then obtain m e where "parse_number mant = Some m" "parse_exponent ex = Some e" "x = scale10 m e"
      by (auto split: option.splits)
    with s c show ?thesis by blast
  qed
qed

lemma parse_floatnumber_nonneg: "parse_floatnumber s = Some x \<Longrightarrow> 0 \<le> x"
  by (drule parse_floatnumber_Some) (auto simp add: scale10_nonneg dest: parse_number_nonneg)

lemma parse_absfloat_Some:
  "parse_absfloat s = Some v \<Longrightarrow>
   (v = PInf \<and> (str_lower s = ''inf'' \<or> str_lower s = ''infinity'')) \<or>
   (v = NaN \<and> str_lower s = ''nan'') \<or>
   (\<exists>x. parse_floatnumber s = Some x \<and> v = round64 x)"
  by (auto simp add: parse_absfloat_def split: if_splits)

lemma parse_absfloat_nonneg:
  assumes "parse_absfloat s = Some v"
  shows "v = NaN \<or> amount_le (Fin 0) v"
proof -
  from parse_absfloat_Some [OF assms] consider "v = PInf" | "v = NaN"
    | x where "parse_floatnumber s = Some x" "v = round64 x"
    by blast
  then show ?thesis
  proof cases
    case 1
    then show ?thesis by simp
  next
    case 2
    then show ?thesis by simp
  next
    case 3
    from parse_floatnumber_nonneg [OF 3(1)] have "0 \<le> x" .
    from round64_nonneg [OF this] 3(2) show ?thesis by auto
  qed
qed

lemma set_dropWhile_space:
  "c \<in> set t \<Longrightarrow> is_space c \<or> c \<in> set (dropWhile is_space t)"
  by (induction t) auto

lemma set_str_strip_subset: "set (str_strip t) \<subseteq> set t"
proof
  fix c assume "c \<in> set (str_strip t)"
  then have "c \<in> set (dropWhile is_space (rev (dropWhile is_space t)))"
    by (simp add: str_strip_def)
  then have "c \<in> set (rev (dropWhile is_space t))" by (rule set_dropWhileD)
  then have "c \<in> set (dropWhile is_space t)" by simp
  then show "c \<in> set t" by (rule set_dropWhileD)
qed

lemma set_str_strip:
  assumes "c \<in> set t"
  shows "is_space c \<or> c \<in> set (str_strip t)"
proof -
  from assms have "is_space c \<or> c \<in> set (rev (dropWhile is_space t))"
    using set_dropWhile_space [of c t] by simp
  then have "is_space c \<or> c \<in> set (dropWhile is_space (rev (dropWhile is_space t)))"
    using set_dropWhile_space by blast
  then show ?thesis by (simp add: str_strip_def)
qed

lemma py_float_Some:
  assumes "py_float t = Some v"
  shows "\<exists>c cs. str_strip t = c # cs \<and>
           ((c = CHR ''-'' \<and> (\<exists>w. parse_absfloat cs = Some w \<and> v = amount_neg w)) \<or>
            (c = CHR ''+'' \<and> parse_absfloat cs = Some v) \<or>
            (c \<noteq> CHR ''-'' \<and> c \<noteq> CHR ''+'' \<and> parse_absfloat (c # cs) = Some v))"
proof (cases "str_strip t")
  case Nil
  with assms show ?thesis by (simp add: py_float_def)
next
  case (Cons c cs)
  with assms show ?thesis by (auto simp add: py_float_def split: if_splits)
qed

lemma py_float_sign:
  assumes "py_float t = Some v" and "CHR ''-'' \<notin> set t"
  shows "v = NaN \<or> amount_le (Fin 0) v"
proof -
  from py_float_Some [OF assms(1)] obtain c cs where s: "str_strip t = c # cs"
    and d: "(c = CHR ''-'' \<and> (\<exists>w. parse_absfloat cs = Some w \<and> v = amount_neg w)) \<or>
            (c = CHR ''+'' \<and> parse_absfloat cs = Some v) \<or>
            (c \<noteq> CHR ''-'' \<and> c \<noteq> CHR ''+'' \<and> parse_absfloat (c # cs) = Some v)"
    by blast
  from s set_str_strip_subset [of t] assms(2) have "c \<noteq> CHR ''-''" by auto
  with d have "parse_absfloat cs = Some v \<or> parse_absfloat (c # cs) = Some v" by blast
  then show ?thesis using parse_absfloat_nonneg by blast
qed

lemma digitpart_ok_chars: "digitpart_ok s \<Longrightarrow> \<forall>c \<in> set s. is_digit c \<or> c = CHR ''_''"
  by (induction s rule: digitpart_ok.induct) (auto split: if_splits)

lemma digitpart_ok_hd: "digitpart_ok s \<Longrightarrow> \<exists>c \<in> set s. is_digit c"
  by (induction s rule: digitpart_ok.induct) (auto split: if_splits)

lemma digitpart_ok_digits: "s \<noteq> [] \<Longrightarrow> \<forall>c \<in> set s. is_digit c \<Longrightarrow> digitpart_ok s"
proof (induction s rule: digitpart_ok.induct)
  case 1
  then show ?case by simp
next
  case (2 c)
  then show ?case by simp
next
  case (3 c d cs)
  from "3.prems" have d: "is_digit d" by simp
  then have nd: "d \<noteq> CHR ''_''" by (auto simp add: is_digit_def)
  from "3.IH"(2) [OF nd] "3.prems" have "digitpart_ok (d # cs)" by simp
  with "3.prems" nd show ?case by simp
qed

lemma parse_number_chars:
  assumes "parse_number s = Some m"
  shows "\<forall>c \<in> set s. is_digit c \<or> c = CHR ''_'' \<or> c = CHR ''.''"
proof -
  from parse_number_Some [OF assms] consider "digitpart_ok s"
    | ip fp where "s = ip @ CHR ''.'' # fp"
        "(digitpart_ok fp \<and> (ip = [] \<or> digitpart_ok ip)) \<or> (digitpart_ok ip \<and> fp = [])"
    by blast
  then show ?thesis
  proof cases
    case 1
    from digitpart_ok_chars [OF this] show ?thesis by blast
  next
    case 2
    have a: "\<forall>c \<in> set ip. is_digit c \<or> c = CHR ''_''"
      using 2(2) digitpart_ok_chars [of ip] by auto
    have b: "\<forall>c \<in> set fp. is_digit c \<or> c = CHR ''_''"
      using 2(2) digitpart_ok_chars [of fp] by auto
    from a b show ?thesis unfolding 2(1) by auto
  qed
qed

lemma parse_number_digit:
  assumes "parse_number s = Some m"
  shows "\<exists>c \<in> set s. is_digit c"
proof -
  from parse_number_Some [OF assms] consider "digitpart_ok s"
    | ip fp where "s = ip @ CHR ''.'' # fp"
        "(digitpart_ok fp \<and> (ip = [] \<or> digitpart_ok ip)) \<or> (digitpart_ok ip \<and> fp = [])"
    by blast
  then show ?thesis
  proof cases
    case 1
    then show ?thesis by (rule digitpart_ok_hd)
  next
    case 2
    from 2(2) have "digitpart_ok ip \<or> digitpart_ok fp" by blast
    then have "(\<exists>c \<in> set ip. is_digit c) \<or> (\<exists>c \<in> set fp. is_digit c)"
      using digitpart_ok_hd by blast
    then show ?thesis unfolding 2(1) by auto
  qed
qed

lemma parse_exponent_chars:
  assumes "parse_exponent s = Some e"
  shows "\<forall>c \<in> set s. is_digit c \<or> c = CHR ''_'' \<or> c = CHR ''+'' \<or> c = CHR ''-''"
proof (cases s)
  case Nil
  then show ?thesis by simp
next
  case (Cons c cs)
  with assms have "(c = CHR ''-'' \<and> digitpart_ok cs) \<or> (c = CHR ''+'' \<and> digitpart_ok cs) \<or>
                   digitpart_ok (c # cs)"
    by (auto simp add: parse_exponent_def split: if_splits)
  then show ?thesis
    using digitpart_ok_chars [of cs] digitpart_ok_chars [of "c # cs"] unfolding Cons by auto
qed

lemma parse_floatnumber_chars:
  assumes "parse_floatnumber s = Some x"
  shows "\<forall>c \<in> set s. is_digit c \<or> c \<in> set ''_.+-eE''"
proof -
  from parse_floatnumber_Some [OF assms] consider "parse_number s = Some x"
    | mant c ex m e where "s = mant @ c # ex" "c = CHR ''e'' \<or> c = CHR ''E''"
        "parse_number mant = Some m" "parse_exponent ex = Some e"
    by blast
  then show ?thesis
  proof cases
    case 1
    from parse_number_chars [OF this] show ?thesis by auto
  next
    case 2
    from parse_number_chars [OF 2(3)] parse_exponent_chars [OF 2(4)] 2(2)
    show ?thesis unfolding 2(1) by auto
  qed
qed

lemma parse_floatnumber_digit:
  assumes "parse_floatnumber s = Some x"
  shows "\<exists>c \<in> set s. is_digit c"
proof -
  from parse_floatnumber_Some [OF assms] consider "parse_number s = Some x"
    | mant c ex m where "s = mant @ c # ex" "parse_number mant = Some m"
    by blast
  then show ?thesis
  proof cases
    case 1
    then show ?thesis by (rule parse_number_digit)
  next
    case 2
    from parse_number_digit [OF 2(2)] show ?thesis unfolding 2(1) by auto
  qed
qed

lemma lower_char_letters:
  "\<forall>c \<in> set ascii_uppercase. lower_char c \<in> set ''infaty'' \<longrightarrow> c \<in> set ''INFATY''"
  by code_simp

lemma lower_char_word:
  assumes "lower_char c \<in> set ''infaty''"
  shows "c \<in> set ''infatyINFATY''"
proof (cases "is_upper c")
  case True
  then have "c \<in> set ascii_uppercase" by (simp only: is_upper_def)
  with lower_char_letters assms have "c \<in> set ''INFATY''" by blast
  then show ?thesis by auto
next
  case False
  then have "lower_char c = c" by (rule lower_char_fix)
  with assms show ?thesis by auto
qed

lemma lower_char_n_all:
  "\<forall>c \<in> set ascii_uppercase. lower_char c = CHR ''n'' \<longrightarrow> c = CHR ''N''"
  by code_simp

lemma lower_char_n:
  assumes "lower_char c = CHR ''n''"
  shows "c = CHR ''n'' \<or> c = CHR ''N''"
proof (cases "is_upper c")
  case True
  then have "c \<in> set ascii_uppercase" by (simp only: is_upper_def)
  with lower_char_n_all assms show ?thesis by blast
next
  case False
  then have "lower_char c = c" by (rule lower_char_fix)
  with assms show ?thesis by simp
qed

lemma str_lower_word:
  assumes "str_lower s = ''inf'' \<or> str_lower s = ''infinity'' \<or> str_lower s = ''nan''"
  shows "(\<forall>c \<in> set s. c \<in> set ''infatyINFATY'') \<and> (\<exists>c \<in> set s. c = CHR ''n'' \<or> c = CHR ''N'')"
proof -
  have sub: "set (str_lower s) \<subseteq> set ''infaty''" using assms by auto
  have a: "\<forall>c \<in> set s. c \<in> set ''infatyINFATY''"
  proof
    fix c assume "c \<in> set s"
    then have "lower_char c \<in> set (str_lower s)" by (simp add: str_lower_def)
    with sub have "lower_char c \<in> set ''infaty''" by blast
    then show "c \<in> set ''infatyINFATY''" by (rule lower_char_word)
  qed
  have "CHR ''n'' \<in> set (str_lower s)" using assms by auto
  then obtain c where "c \<in> set s" "lower_char c = CHR ''n''"
    by (auto simp add: str_lower_def)
  with lower_char_n have "\<exists>c \<in> set s. c = CHR ''n'' \<or> c = CHR ''N''" by blast
  with a show ?thesis by blast
qed

lemma parse_absfloat_chars:
  assumes "parse_absfloat s = Some v"
  shows "\<forall>c \<in> set s. is_digit c \<or> c \<in> set ''_.+-eE'' \<or> c \<in> set ''infatyINFATY''"
proof -
  from parse_absfloat_Some [OF assms] consider
      "str_lower s = ''inf'' \<or> str_lower s = ''infinity'' \<or> str_lower s = ''nan''"
    | x where "parse_floatnumber s = Some x"
    by blast
  then show ?thesis
  proof cases
    case 1
    from str_lower_word [OF this] show ?thesis by blast
  next
    case 2
    from parse_floatnumber_chars [OF this] show ?thesis by blast
  qed
qed

lemma parse_absfloat_digit:
  assumes "parse_absfloat s = Some v"
  shows "\<exists>c \<in> set s. is_digit c \<or> c = CHR ''n'' \<or> c = CHR ''N''"
proof -
  from parse_absfloat_Some [OF assms] consider
      "str_lower s = ''inf'' \<or> str_lower s = ''infinity'' \<or> str_lower s = ''nan''"
    | x where "parse_floatnumber s = Some x"
    by blast
  then show ?thesis
  proof cases
    case 1
    from str_lower_word [OF this] show ?thesis by blast
  next
    case 2
    from parse_floatnumber_digit [OF this] show ?thesis by blast
  qed
qed

lemma py_float_chars:
  assumes "py_float t = Some v" and "c \<in> set t"
  shows "is_space c \<or> is_digit c \<or> c \<in> set ''_.+-eE'' \<or> c \<in> set ''infatyINFATY''"
proof -
  define Q where "Q = (\<lambda>c. is_digit c \<or> c \<in> set ''_.+-eE'' \<or> c \<in> set ''infatyINFATY'')"
  have sg: "Q (CHR ''-'')" "Q (CHR ''+'')" by (simp_all add: Q_def)
  have pa: "\<And>s w. parse_absfloat s = Some w \<Longrightarrow> \<forall>c \<in> set s. Q c"
    unfolding Q_def by (rule parse_absfloat_chars)
  from py_float_Some [OF assms(1)] obtain d ds where s: "str_strip t = d # ds"
    and p: "(d = CHR ''-'' \<and> (\<exists>w. parse_absfloat ds = Some w)) \<or>
            (d = CHR ''+'' \<and> parse_absfloat ds = Some v) \<or>
            parse_absfloat (d # ds) = Some v"
    by blast
  from p consider w where "d = CHR ''-''" "parse_absfloat ds = Some w"
    | "d = CHR ''+''" "parse_absfloat ds = Some v"
    | "parse_absfloat (d # ds) = Some v"
    by blast
  then have all: "\<forall>c \<in> set (d # ds). Q c"
  proof cases
    case 1
    from pa [OF 1(2)] sg(1) 1(1) show ?thesis by simp
  next
    case 2
    from pa [OF 2(2)] sg(2) 2(1) show ?thesis by simp
  next
    case 3
    from pa [OF 3] show ?thesis .
  qed
  from set_str_strip [OF assms(2)] have "is_space c \<or> c \<in> set (d # ds)" by (simp only: s)
  with all have "is_space c \<or> Q c" by blast
  then show ?thesis by (simp only: Q_def)
qed

lemma py_float_digit:
  assumes "py_float t = Some v"
  shows "\<exists>c \<in> set t. is_digit c \<or> c = CHR ''n'' \<or> c = CHR ''N''"
proof -
  define Q where "Q = (\<lambda>c. is_digit c \<or> c = CHR ''n'' \<or> c = CHR ''N'')"
  have pa: "\<And>s w. parse_absfloat s = Some w \<Longrightarrow> \<exists>c \<in> set s. Q c"
    unfolding Q_def by (rule parse_absfloat_digit)
  from py_float_Some [OF assms(1)] obtain d ds where s: "str_strip t = d # ds"
    and p: "(\<exists>w. parse_absfloat ds = Some w) \<or> (\<exists>w. parse_absfloat (d # ds) = Some w)"
    by blast
  from p pa have "(\<exists>c \<in> set ds. Q c) \<or> (\<exists>c \<in> set (d # ds). Q c)" by blast
  then have "\<exists>c \<in> set (d # ds). Q c" by auto
  then have "\<exists>c \<in> set (str_strip t). Q c" by (simp only: s)
  with set_str_strip_subset [of t] have "\<exists>c \<in> set t. Q c" by blast
  then show ?thesis by (simp only: Q_def)
qed

lemma dropWhile_none: "\<forall>c \<in> set t. \<not> P c \<Longrightarrow> dropWhile P t = t"
  by (cases t) simp_all

lemma str_strip_id:
  assumes "\<forall>c \<in> set t. \<not> is_space c"
  shows "str_strip t = t"
proof -
  have a: "dropWhile is_space t = t" using assms by (rule dropWhile_none)
  have "\<forall>c \<in> set (rev t). \<not> is_space c" using assms by simp
  then have b: "dropWhile is_space (rev t) = rev t" by (rule dropWhile_none)
  show ?thesis by (simp only: str_strip_def a b rev_rev_ident)
qed

lemma digit_chars:
  "is_digit c \<Longrightarrow> \<not> is_space c \<and> c \<notin> set ''-+eEnN_.$,''"
  by (auto simp add: is_digit_def is_space_def)

lemma dot_not_space: "\<not> is_space (CHR ''.'')"
  by (simp add: is_space_def)

lemma takeWhile_first:
  "c \<notin> set ip \<Longrightarrow> takeWhile (\<lambda>x. x \<noteq> c) (ip @ c # fp) = ip"
  by (induction ip) auto

lemma split_at_first:
  assumes "ip @ c # fp = ip' @ c # fp'" and "c \<notin> set ip" and "c \<notin> set ip'"
  shows "ip = ip' \<and> fp = fp'"
proof -
  have a: "takeWhile (\<lambda>x. x \<noteq> c) (ip @ c # fp) = ip"
    using assms(2) by (rule takeWhile_first)
  have b: "takeWhile (\<lambda>x. x \<noteq> c) (ip' @ c # fp') = ip'"
    using assms(3) by (rule takeWhile_first)
  from a b assms(1) have "ip = ip'" by simp
  with assms(1) show ?thesis by simp
qed

text \<open>A string of digits and at most one point is read as the decimal it writes.\<close>

lemma py_float_plain:
  assumes ok: "py_float t = Some v"
    and chars: "\<forall>c \<in> set t. is_digit c \<or> c = CHR ''.''"
  shows "\<exists>x. parse_number t = Some x \<and> v = round64 x"
proof -
  have nsp: "\<forall>c \<in> set t. \<not> is_space c"
    using chars digit_chars dot_not_space by blast
  have strip: "str_strip t = t" using nsp by (rule str_strip_id)
  have nsign: "\<forall>c \<in> set t. c \<noteq> CHR ''-'' \<and> c \<noteq> CHR ''+'' \<and> c \<noteq> CHR ''e'' \<and> c \<noteq> CHR ''E'' \<and>
                              c \<noteq> CHR ''n'' \<and> c \<noteq> CHR ''N''"
  proof
    fix c assume "c \<in> set t"
    with chars have "is_digit c \<or> c = CHR ''.''" by blast
    then show "c \<noteq> CHR ''-'' \<and> c \<noteq> CHR ''+'' \<and> c \<noteq> CHR ''e'' \<and> c \<noteq> CHR ''E'' \<and>
               c \<noteq> CHR ''n'' \<and> c \<noteq> CHR ''N''"
      using digit_chars [of c] by auto
  qed
  from py_float_Some [OF ok] obtain c cs where s: "t = c # cs"
    and d: "(c = CHR ''-'' \<and> (\<exists>w. parse_absfloat cs = Some w \<and> v = amount_neg w)) \<or>
            (c = CHR ''+'' \<and> parse_absfloat cs = Some v) \<or>
            (c \<noteq> CHR ''-'' \<and> c \<noteq> CHR ''+'' \<and> parse_absfloat (c # cs) = Some v)"
    unfolding strip by metis
  from s nsign have "c \<noteq> CHR ''-'' \<and> c \<noteq> CHR ''+''" by simp
  with d s have abs: "parse_absfloat t = Some v" by blast
  from parse_absfloat_Some [OF abs] consider
      "str_lower t = ''inf'' \<or> str_lower t = ''infinity'' \<or> str_lower t = ''nan''"
    | x where "parse_floatnumber t = Some x" "v = round64 x"
    by blast
  then show ?thesis
  proof cases
    case 1
    from str_lower_word [OF this] nsign show ?thesis by blast
  next
    case 2
    from parse_floatnumber_Some [OF 2(1)] consider "parse_number t = Some x"
      | mant c ex where "t = mant @ c # ex" "c = CHR ''e'' \<or> c = CHR ''E''"
      by blast
    then show ?thesis
    proof cases
      case 1
      with 2(2) show ?thesis by blast
    next
      case 2
      from 2(1) have "c \<in> set t" by simp
      with nsign 2(2) show ?thesis by blast
    qed
  qed
qed

lemma py_float_digits:
  assumes ok: "py_float t = Some v"
    and chars: "\<forall>c \<in> set t. is_digit c"
  shows "v = round64 (real_of_int (digits_value t))"
proof -
  from chars have "\<forall>c \<in> set t. is_digit c \<or> c = CHR ''.''" by blast
  from py_float_plain [OF ok this] obtain x where x: "parse_number t = Some x" and v: "v = round64 x"
    by blast
  from parse_number_Some [OF x] consider "x = real_of_int (digits_value t)"
    | ip fp where "t = ip @ CHR ''.'' # fp"
    by blast
  then show ?thesis
  proof cases
    case 1
    with v show ?thesis by simp
  next
    case 2
    then have "CHR ''.'' \<in> set t" by simp
    with chars have "is_digit (CHR ''.'')" by blast
    then show ?thesis by (simp add: is_digit_def)
  qed
qed

lemma py_float_decimal:
  assumes ok: "py_float t = Some v"
    and t: "t = ip @ CHR ''.'' # fp"
    and chars: "\<forall>c \<in> set (ip @ fp). is_digit c"
  shows "v = round64 (real_of_int (digits_value (ip @ fp)) / 10 ^ length fp)"
proof -
  from chars t have "\<forall>c \<in> set t. is_digit c \<or> c = CHR ''.''" by auto
  from py_float_plain [OF ok this] obtain x where x: "parse_number t = Some x" and v: "v = round64 x"
    by blast
  have nd: "\<not> is_digit (CHR ''.'')" by (simp add: is_digit_def)
  from chars nd have nip: "CHR ''.'' \<notin> set ip" by auto
  have fil: "filter is_digit fp = fp" using chars by (simp add: filter_id_conv)
  from parse_number_Some [OF x] consider "digitpart_ok t"
    | ip' fp' where "t = ip' @ CHR ''.'' # fp'" "CHR ''.'' \<notin> set ip'"
        "x = real_of_int (digits_value ip')
             + real_of_int (digits_value fp') / 10 ^ length (filter is_digit fp')"
    by blast
  then show ?thesis
  proof cases
    case 1
    from digitpart_ok_chars [OF this] t have "is_digit (CHR ''.'') \<or> CHR ''.'' = CHR ''_''"
      by simp
    with nd show ?thesis by simp
  next
    case 2
    from 2(1) t have "ip' @ CHR ''.'' # fp' = ip @ CHR ''.'' # fp" by simp
    from split_at_first [OF this 2(2) nip] have e: "ip' = ip" "fp' = fp" by simp_all
    have "digits_value (ip @ fp) = digits_value ip * 10 ^ length fp + digits_value fp"
      using digits_value_append [of ip fp] by (simp only: fil)
    then have "real_of_int (digits_value (ip @ fp)) / 10 ^ length fp =
               real_of_int (digits_value ip) + real_of_int (digits_value fp) / 10 ^ length fp"
      by (simp add: field_simps)
    with 2(3) e fil v show ?thesis by simp
  qed
qed

lemma set_strip_currency:
  "set (strip_currency s) = set s - {CHR ''$'', CHR '',''}"
  by (auto simp add: strip_currency_def)

lemma digits_value_strip_currency: "digits_value (strip_currency s) = digits_value s"
proof -
  have "filter is_digit (strip_currency s) = filter is_digit s"
    unfolding strip_currency_def filter_filter
    by (rule filter_cong [OF refl]) (auto simp add: is_digit_def)
  then show ?thesis by (simp only: digits_value_def)
qed

lemmas round_defs = round64_def round_half_even_def pow2_def Let_def ilog2_def bitlen_def
  compute_floorlog

lemma load_data_amount_column:
  assumes load: "load_data to_datetime (Inr df) = Inr df'"
    and col: "get_col df ''award_amount'' = Inr s"
  shows "\<exists>s'. astype_float (replace_currency s) = Inr s' \<and> get_col df' ''award_amount'' = Inr s'"
proof -
  from load_data_success [OF load] obtain df1 s' ag df4 where
    am: "\<exists>s. map_of df ''award_amount'' = Some s \<and> astype_float (replace_currency s) = Inr s'"
    and 4: "add_contract_duration
              (set_col (set_col df1 ''award_amount'' s') ''awarding_agency_name''
                       (replace_values agency_mappings ag)) = Inr df4"
    and 5: "add_award_size_category df4 = Inr df'"
    by auto
  from am col have a: "astype_float (replace_currency s) = Inr s'"
    by (auto simp add: get_col_Inr)
  have "map_of df4 ''award_amount'' = Some s'"
    using add_contract_duration_Inr [OF 4] by (auto simp add: map_of_set_col)
  then have "map_of df' ''award_amount'' = Some s'"
    using add_award_size_category_Inr [OF 5] by (auto simp add: map_of_set_col)
  then have "get_col df' ''award_amount'' = Inr s'"
    by (simp add: get_col_Inr)
  with a show ?thesis by blast
qed

lemma loaded_cell:
  assumes v: "py_float (strip_currency s) = Some v"
  shows "((\<forall>c \<in> set s. is_digit c \<or> c = CHR ''$'' \<or> c = CHR '','') \<longrightarrow>
            v = round64 (real_of_int (digits_value s))) \<and>
         (\<forall>ip fp. strip_currency s = ip @ CHR ''.'' # fp \<and> (\<forall>c \<in> set (ip @ fp). is_digit c) \<longrightarrow>
            v = round64 (real_of_int (digits_value (ip @ fp)) / 10 ^ length fp)) \<and>
         (CHR ''-'' \<notin> set s \<longrightarrow> v = NaN \<or> amount_le (Fin 0) v)"
proof (intro conjI impI allI)
  assume "\<forall>c \<in> set s. is_digit c \<or> c = CHR ''$'' \<or> c = CHR '',''"
  then have "\<forall>c \<in> set (strip_currency s). is_digit c"
    by (auto simp add: set_strip_currency)
  from py_float_digits [OF v this] show "v = round64 (real_of_int (digits_value s))"
    by (simp only: digits_value_strip_currency)
next
  fix ip fp
  assume "strip_currency s = ip @ CHR ''.'' # fp \<and> (\<forall>c \<in> set (ip @ fp). is_digit c)"
  then have t: "strip_currency s = ip @ CHR ''.'' # fp" and d: "\<forall>c \<in> set (ip @ fp). is_digit c"
    by blast+
  from py_float_decimal [OF v t d]
  show "v = round64 (real_of_int (digits_value (ip @ fp)) / 10 ^ length fp)" .
next
  assume "CHR ''-'' \<notin> set s"
  then have "CHR ''-'' \<notin> set (strip_currency s)" by (simp add: set_strip_currency)
  from py_float_sign [OF v this] show "v = NaN \<or> amount_le (Fin 0) v" .
qed

lemma unloadable_cell:
  assumes "(\<exists>c \<in> set t. \<not> is_space c \<and> \<not> is_digit c \<and> c \<notin> set ''_.+-eE$,'' \<and>
                         c \<notin> set ''infatyINFATY'') \<or>
           (\<forall>c \<in> set t. \<not> is_digit c \<and> c \<noteq> CHR ''n'' \<and> c \<noteq> CHR ''N'')"
  shows "py_float (strip_currency t) = None"
proof (rule ccontr)
  assume "py_float (strip_currency t) \<noteq> None"
  then obtain v where v: "py_float (strip_currency t) = Some v" by blast
  from assms show False
  proof
    assume "\<exists>c \<in> set t. \<not> is_space c \<and> \<not> is_digit c \<and> c \<notin> set ''_.+-eE$,'' \<and>
                         c \<notin> set ''infatyINFATY''"
    then obtain c where c: "c \<in> set t" "\<not> is_space c" "\<not> is_digit c" "c \<notin> set ''_.+-eE$,''"
      "c \<notin> set ''infatyINFATY''"
      by blast
    from c(1) c(4) have "c \<in> set (strip_currency t)" by (simp add: set_strip_currency)
    from py_float_chars [OF v this] c(2) c(3) c(5) have "c \<in> set ''_.+-eE''" by blast
    with c(4) show False by simp
  next
    assume a: "\<forall>c \<in> set t. \<not> is_digit c \<and> c \<noteq> CHR ''n'' \<and> c \<noteq> CHR ''N''"
    from py_float_digit [OF v] obtain c where "c \<in> set (strip_currency t)"
      "is_digit c \<or> c = CHR ''n'' \<or> c = CHR ''N''"
      by blast
    with a show False by (auto simp add: set_strip_currency)
  qed
qed

lemma iso_date_examples:
  "parse_iso_date ''2024-01-15'' = Some 1705276800000000000"
  "parse_iso_date ''2024-02-01'' = Some 1706745600000000000"
  "parse_iso_date ''2024-03-20'' = Some 1710892800000000000"
  "parse_iso_date ''2024-12-31'' = Some 1735603200000000000"
  "parse_iso_date ''2025-01-31'' = Some 1738281600000000000"
  by code_simp+

text \<open>
  Claim C4 says that every loaded amount is non-negative. The loader checks no sign: the
  cell \<open>-$1,500.00\<close> loads as the amount -1500.
\<close>

theorem load_data_negative_amount_counterexample:
  "load_data iso_dates (Inr [(''award_amount'', ObjS [Some ''-$1,500.00'']),
                       (''awarding_agency_name'', ObjS [Some ''Department of Justice'']),
                       (''action_date'', ObjS [Some ''2024-01-15'']),
                       (''contract_start_date'', ObjS [Some ''2024-01-15'']),
                       (''contract_end_date'', ObjS [Some ''2024-12-31''])])
     = Inr [(''award_amount'', FloatS [Fin (- 1500)]),
            (''awarding_agency_name'', ObjS [Some ''Department of Justice'']),
            (''action_date'', DateS [Some 1705276800000000000]),
            (''contract_start_date'', DateS [Some 1705276800000000000]),
            (''contract_end_date'', DateS [Some 1735603200000000000]),
            (''contract_duration_days'', IntS [351]),
            (''award_size_category'', ObjS [None])] \<and>
   \<not> amount_le (Fin 0) (Fin (- 1500))"
proof -
  have "round64 (real_of_int 1500) = Fin (real_of_int 1500)"
    by (rule round64_of_int) simp
  then have pf: "py_float (strip_currency ''-$1,500.00'') = Some (Fin (- 1500))"
    by (simp add: float_defs)
  have sc: "strip_currency ''-$1,500.00'' = ''-1500.00''"
    by (simp add: strip_currency_def)
  show ?thesis
    using pf by (simp add: load_defs sc size_defs iso_date_examples)
qed

text \<open>
  Claim C4, amended. The loader removes every \<open>$\<close> and \<open>,\<close> from the cells of the
  amount column and reads what is left as Python's \<open>float\<close> does. After a successful load
  a column of floats is unchanged and a column of integers is rounded to floats. In a
  column of strings an empty cell gives NaN; a cell of ASCII text gives, when it consists
  of digits, \<open>$\<close> and \<open>,\<close>, the float nearest to the whole number that its digits write,
  and when what is left of it is digits around one point, the float nearest to that
  decimal; a cell without a minus sign gives NaN or an amount that is not negative, so
  that a negative amount comes from a cell with a minus sign only. A cell of ASCII text
  with a character that no number has (other than white space, digits, the characters
  \<open>_.+-eE$,\<close> and the letters of \<open>inf\<close>, \<open>infinity\<close> and \<open>nan\<close>), or with no digit and no
  letter \<open>n\<close>, makes the whole load fail.
\<close>

theorem load_data_award_amount:
  assumes "get_col df ''award_amount'' = Inr col"
  shows "(\<forall>df'. load_data to_datetime (Inr df) = Inr df' \<longrightarrow>
            (\<forall>xs. col = FloatS xs \<longrightarrow> get_col df' ''award_amount'' = Inr (FloatS xs)) \<and>
            (\<forall>xs. col = IntS xs \<longrightarrow>
               get_col df' ''award_amount'' = Inr (FloatS (map (\<lambda>i. round64 (real_of_int i)) xs))) \<and>
            (\<forall>cells. col = ObjS cells \<longrightarrow>
               (\<exists>vs. get_col df' ''award_amount'' = Inr (FloatS vs) \<and> length vs = length cells \<and>
                  (\<forall>i < length cells.
                     (cells ! i = None \<longrightarrow> vs ! i = NaN) \<and>
                     (\<forall>s. cells ! i = Some s \<and> (\<forall>c \<in> set s. is_ascii c) \<longrightarrow>
                        ((\<forall>c \<in> set s. is_digit c \<or> c = CHR ''$'' \<or> c = CHR '','') \<longrightarrow>
                           vs ! i = round64 (real_of_int (digits_value s))) \<and>
                        (\<forall>ip fp. strip_currency s = ip @ CHR ''.'' # fp \<and>
                                  (\<forall>c \<in> set (ip @ fp). is_digit c) \<longrightarrow>
                           vs ! i = round64 (real_of_int (digits_value (ip @ fp)) / 10 ^ length fp)) \<and>
                        (CHR ''-'' \<notin> set s \<longrightarrow> vs ! i = NaN \<or> amount_le (Fin 0) (vs ! i))))))) \<and>
         (\<forall>cells t. col = ObjS cells \<and> Some t \<in> set cells \<and> (\<forall>c \<in> set t. is_ascii c) \<and>
            ((\<exists>c \<in> set t. \<not> is_space c \<and> \<not> is_digit c \<and> c \<notin> set ''_.+-eE$,'' \<and>
                            c \<notin> set ''infatyINFATY'') \<or>
             (\<forall>c \<in> set t. \<not> is_digit c \<and> c \<noteq> CHR ''n'' \<and> c \<noteq> CHR ''N'')) \<longrightarrow>
            (\<exists>e. load_data to_datetime (Inr df) = Inl e))"
proof (intro conjI allI impI)
  fix df' xs
  assume load: "load_data to_datetime (Inr df) = Inr df'" and c: "col = FloatS xs"
  from load_data_amount_column [OF load assms] c
  show "get_col df' ''award_amount'' = Inr (FloatS xs)" by auto
next
  fix df' xs
  assume load: "load_data to_datetime (Inr df) = Inr df'" and c: "col = IntS xs"
  from load_data_amount_column [OF load assms] c
  show "get_col df' ''award_amount'' = Inr (FloatS (map (\<lambda>i. round64 (real_of_int i)) xs))" by auto
next
  fix df' cells
  assume load: "load_data to_datetime (Inr df) = Inr df'" and c: "col = ObjS cells"
  from assms c have col: "get_col df ''award_amount'' = Inr (ObjS cells)" by simp
  from load_data_amounts [OF load col] obtain vs where
    out: "get_col df' ''award_amount'' = Inr (FloatS vs)" and len: "length vs = length cells"
    and each: "\<forall>i < length cells.
                 (cells ! i = None \<longrightarrow> vs ! i = NaN) \<and>
                 (\<forall>s. cells ! i = Some s \<longrightarrow> py_float (strip_currency s) = Some (vs ! i))"
    by blast
  have "\<forall>i < length cells.
          (cells ! i = None \<longrightarrow> vs ! i = NaN) \<and>
          (\<forall>s. cells ! i = Some s \<and> (\<forall>c \<in> set s. is_ascii c) \<longrightarrow>
             ((\<forall>c \<in> set s. is_digit c \<or> c = CHR ''$'' \<or> c = CHR '','') \<longrightarrow>
                vs ! i = round64 (real_of_int (digits_value s))) \<and>
             (\<forall>ip fp. strip_currency s = ip @ CHR ''.'' # fp \<and>
                       (\<forall>c \<in> set (ip @ fp). is_digit c) \<longrightarrow>
                vs ! i = round64 (real_of_int (digits_value (ip @ fp)) / 10 ^ length fp)) \<and>
             (CHR ''-'' \<notin> set s \<longrightarrow> vs ! i = NaN \<or> amount_le (Fin 0) (vs ! i)))"
  proof (intro allI impI)
    fix i assume i: "i < length cells"
    from each i have n: "cells ! i = None \<longrightarrow> vs ! i = NaN"
      and p: "\<forall>s. cells ! i = Some s \<longrightarrow> py_float (strip_currency s) = Some (vs ! i)"
      by blast+
    have "\<forall>s. cells ! i = Some s \<and> (\<forall>c \<in> set s. is_ascii c) \<longrightarrow>
             ((\<forall>c \<in> set s. is_digit c \<or> c = CHR ''$'' \<or> c = CHR '','') \<longrightarrow>
                vs ! i = round64 (real_of_int (digits_value s))) \<and>
             (\<forall>ip fp. strip_currency s = ip @ CHR ''.'' # fp \<and>
                       (\<forall>c \<in> set (ip @ fp). is_digit c) \<longrightarrow>
                vs ! i = round64 (real_of_int (digits_value (ip @ fp)) / 10 ^ length fp)) \<and>
             (CHR ''-'' \<notin> set s \<longrightarrow> vs ! i = NaN \<or> amount_le (Fin 0) (vs ! i))"
    proof (intro allI impI)
      fix s assume "cells ! i = Some s \<and> (\<forall>c \<in> set s. is_ascii c)"
      with p have v: "py_float (strip_currency s) = Some (vs ! i)" by blast
      from loaded_cell [OF v]
      show "((\<forall>c \<in> set s. is_digit c \<or> c = CHR ''$'' \<or> c = CHR '','') \<longrightarrow>
                vs ! i = round64 (real_of_int (digits_value s))) \<and>
             (\<forall>ip fp. strip_currency s = ip @ CHR ''.'' # fp \<and>
                       (\<forall>c \<in> set (ip @ fp). is_digit c) \<longrightarrow>
                vs ! i = round64 (real_of_int (digits_value (ip @ fp)) / 10 ^ length fp)) \<and>
             (CHR ''-'' \<notin> set s \<longrightarrow> vs ! i = NaN \<or> amount_le (Fin 0) (vs ! i))" .
    qed
    with n show "(cells ! i = None \<longrightarrow> vs ! i = NaN) \<and>
          (\<forall>s. cells ! i = Some s \<and> (\<forall>c \<in> set s. is_ascii c) \<longrightarrow>
             ((\<forall>c \<in> set s. is_digit c \<or> c = CHR ''$'' \<or> c = CHR '','') \<longrightarrow>
                vs ! i = round64 (real_of_int (digits_value s))) \<and>
             (\<forall>ip fp. strip_currency s = ip @ CHR ''.'' # fp \<and>
                       (\<forall>c \<in> set (ip @ fp). is_digit c) \<longrightarrow>
                vs ! i = round64 (real_of_int (digits_value (ip @ fp)) / 10 ^ length fp)) \<and>
             (CHR ''-'' \<notin> set s \<longrightarrow> vs ! i = NaN \<or> amount_le (Fin 0) (vs ! i)))"
      by (rule conjI)
  qed
  with out len
  show "\<exists>vs. get_col df' ''award_amount'' = Inr (FloatS vs) \<and> length vs = length cells \<and>
          (\<forall>i < length cells.
             (cells ! i = None \<longrightarrow> vs ! i = NaN) \<and>
             (\<forall>s. cells ! i = Some s \<and> (\<forall>c \<in> set s. is_ascii c) \<longrightarrow>
                ((\<forall>c \<in> set s. is_digit c \<or> c = CHR ''$'' \<or> c = CHR '','') \<longrightarrow>
                   vs ! i = round64 (real_of_int (digits_value s))) \<and>
                (\<forall>ip fp. strip_currency s = ip @ CHR ''.'' # fp \<and>
                          (\<forall>c \<in> set (ip @ fp). is_digit c) \<longrightarrow>
                   vs ! i = round64 (real_of_int (digits_value (ip @ fp)) / 10 ^ length fp)) \<and>
                (CHR ''-'' \<notin> set s \<longrightarrow> vs ! i = NaN \<or> amount_le (Fin 0) (vs ! i))))"
    by blast
next
  fix cells t
  assume a: "col = ObjS cells \<and> Some t \<in> set cells \<and> (\<forall>c \<in> set t. is_ascii c) \<and>
            ((\<exists>c \<in> set t. \<not> is_space c \<and> \<not> is_digit c \<and> c \<notin> set ''_.+-eE$,'' \<and>
                            c \<notin> set ''infatyINFATY'') \<or>
             (\<forall>c \<in> set t. \<not> is_digit c \<and> c \<noteq> CHR ''n'' \<and> c \<noteq> CHR ''N''))"
  from assms a have col: "get_col df ''award_amount'' = Inr (ObjS cells)" by simp
  from a have mem: "Some t \<in> set cells" by blast
  from a have "(\<exists>c \<in> set t. \<not> is_space c \<and> \<not> is_digit c \<and> c \<notin> set ''_.+-eE$,'' \<and>
                            c \<notin> set ''infatyINFATY'') \<or>
             (\<forall>c \<in> set t. \<not> is_digit c \<and> c \<noteq> CHR ''n'' \<and> c \<noteq> CHR ''N'')"
    by blast
  then have "py_float (strip_currency t) = None" by (rule unloadable_cell)
  from load_data_bad_amount [OF col mem this]
  show "\<exists>e. load_data to_datetime (Inr df) = Inl e" .
qed

text \<open>
  A table as \<open>pd.read_csv\<close> gives it, with its dates as strings: the amounts of its
  three rows load as 1234.5, 25000 and NaN. The same table with the amount \<open>$12.5k\<close>
  does not load.
\<close>

theorem load_data_award_amount_witness:
  "get_col [(''award_amount'', ObjS [Some ''$1,234.50'', Some ''25000'', None]),
            (''awarding_agency_name'', ObjS [Some ''Department of Justice (DOJ)'',
               Some ''Department of Education'', Some ''Department of Education'']),
            (''action_date'', ObjS [Some ''2024-01-15'', Some ''2024-02-01'', Some ''2024-03-20'']),
            (''contract_start_date'', ObjS [Some ''2024-01-15'', Some ''2024-02-01'', Some ''2024-03-20'']),
            (''contract_end_date'', ObjS [Some ''2024-12-31'', Some ''2025-01-31'', None])]
      ''award_amount'' = Inr (ObjS [Some ''$1,234.50'', Some ''25000'', None]) \<and>
   load_data iso_dates
     (Inr [(''award_amount'', ObjS [Some ''$1,234.50'', Some ''25000'', None]),
           (''awarding_agency_name'', ObjS [Some ''Department of Justice (DOJ)'',
              Some ''Department of Education'', Some ''Department of Education'']),
           (''action_date'', ObjS [Some ''2024-01-15'', Some ''2024-02-01'', Some ''2024-03-20'']),
           (''contract_start_date'', ObjS [Some ''2024-01-15'', Some ''2024-02-01'', Some ''2024-03-20'']),
           (''contract_end_date'', ObjS [Some ''2024-12-31'', Some ''2025-01-31'', None])])
     = Inr [(''award_amount'', FloatS [Fin (2469 / 2), Fin 25000, NaN]),
            (''awarding_agency_name'', ObjS [Some ''Department of Justice'',
               Some ''Department of Education'', Some ''Department of Education'']),
            (''action_date'', DateS [Some 1705276800000000000, Some 1706745600000000000,
               Some 1710892800000000000]),
            (''contract_start_date'', DateS [Some 1705276800000000000, Some 1706745600000000000,
               Some 1710892800000000000]),
            (''contract_end_date'', DateS [Some 1735603200000000000, Some 1738281600000000000, None]),
            (''contract_duration_days'', FloatS [Fin 351, Fin 365, NaN]),
            (''award_size_category'', ObjS [Some ''Micro (< $10K)'', Some ''Small ($10K - $100K)'', None])] \<and>
   round64 (real_of_int (digits_value (''1234'' @ ''50'')) / 10 ^ length ''50'') = Fin (2469 / 2) \<and>
   round64 (real_of_int (digits_value ''25000'')) = Fin 25000 \<and>
   amount_le (Fin 0) (Fin (2469 / 2)) \<and>
   load_data iso_dates
     (Inr [(''award_amount'', ObjS [Some ''$12.5k'']),
           (''awarding_agency_name'', ObjS [Some ''Department of Justice'']),
           (''action_date'', ObjS [Some ''2024-01-15'']),
           (''contract_start_date'', ObjS [Some ''2024-01-15'']),
           (''contract_end_date'', ObjS [Some ''2024-12-31''])])
     = Inl (ValueError ''12.5k'')"
proof -
  let ?cells = "[Some ''$1,234.50'', Some ''25000'', None]"
  let ?df = "[(''award_amount'', ObjS ?cells),
            (''awarding_agency_name'', ObjS [Some ''Department of Justice (DOJ)'',
               Some ''Department of Education'', Some ''Department of Education'']),
            (''action_date'', ObjS [Some ''2024-01-15'', Some ''2024-02-01'', Some ''2024-03-20'']),
            (''contract_start_date'', ObjS [Some ''2024-01-15'', Some ''2024-02-01'', Some ''2024-03-20'']),
            (''contract_end_date'', ObjS [Some ''2024-12-31'', Some ''2025-01-31'', None])]"
  let ?df' = "[(''award_amount'', FloatS [Fin (2469 / 2), Fin 25000, NaN]),
            (''awarding_agency_name'', ObjS [Some ''Department of Justice'',
               Some ''Department of Education'', Some ''Department of Education'']),
            (''action_date'', DateS [Some 1705276800000000000, Some 1706745600000000000,
               Some 1710892800000000000]),
            (''contract_start_date'', DateS [Some 1705276800000000000, Some 1706745600000000000,
               Some 1710892800000000000]),
            (''contract_end_date'', DateS [Some 1735603200000000000, Some 1738281600000000000, None]),
            (''contract_duration_days'', FloatS [Fin 351, Fin 365, NaN]),
            (''award_size_category'', ObjS [Some ''Micro (< $10K)'', Some ''Small ($10K - $100K)'', None])]"
  let ?bad = "[(''award_amount'', ObjS [Some ''$12.5k'']),
           (''awarding_agency_name'', ObjS [Some ''Department of Justice'']),
           (''action_date'', ObjS [Some ''2024-01-15'']),
           (''contract_start_date'', ObjS [Some ''2024-01-15'']),
           (''contract_end_date'', ObjS [Some ''2024-12-31''])]"
  have col: "get_col ?df ''award_amount'' = Inr (ObjS ?cells)"
    by (simp add: get_col_def)
  have sc1: "strip_currency ''$1,234.50'' = ''1234.50''"
    and sc2: "strip_currency ''25000'' = ''25000''"
    and sc3: "strip_currency ''$12.5k'' = ''12.5k''"
    by (simp_all add: strip_currency_def)
  have pf1: "py_float ''1234.50'' = Some (Fin (2469 / 2))"
    by (simp add: float_defs round_defs)
  have pf2: "py_float ''25000'' = Some (Fin 25000)"
    by (simp add: float_defs round_defs)
  have pf3: "py_float ''12.5k'' = None"
    by (simp add: float_defs)
  have days: "round64 351 = Fin 351" "round64 365 = Fin 365"
    by (simp_all add: round_defs)
  have load: "load_data iso_dates (Inr ?df) = Inr ?df'"
    by (simp add: load_defs sc1 sc2 pf1 pf2 size_defs iso_date_examples days)
  have out: "get_col ?df' ''award_amount'' = Inr (FloatS [Fin (2469 / 2), Fin 25000, NaN])"
    by (simp add: get_col_def)
  note strings = load_data_award_amount [OF col, of iso_dates, THEN conjunct1, rule_format, OF load,
                   THEN conjunct2, THEN conjunct2, rule_format, OF refl]
  from strings obtain vs where
    vs: "get_col ?df' ''award_amount'' = Inr (FloatS vs)"
    and each: "\<forall>i < length ?cells.
                 (?cells ! i = None \<longrightarrow> vs ! i = NaN) \<and>
                 (\<forall>s. ?cells ! i = Some s \<and> (\<forall>c \<in> set s. is_ascii c) \<longrightarrow>
                    ((\<forall>c \<in> set s. is_digit c \<or> c = CHR ''$'' \<or> c = CHR '','') \<longrightarrow>
                       vs ! i = round64 (real_of_int (digits_value s))) \<and>
                    (\<forall>ip fp. strip_currency s = ip @ CHR ''.'' # fp \<and>
                              (\<forall>c \<in> set (ip @ fp). is_digit c) \<longrightarrow>
                       vs ! i = round64 (real_of_int (digits_value (ip @ fp)) / 10 ^ length fp)) \<and>
                    (CHR ''-'' \<notin> set s \<longrightarrow> vs ! i = NaN \<or> amount_le (Fin 0) (vs ! i)))"
    by - (erule exE, (erule conjE)+, rule that)
  from vs out have v: "vs = [Fin (2469 / 2), Fin 25000, NaN]" by simp
  have a1: "\<forall>c \<in> set ''$1,234.50''. is_ascii c" by code_simp
  have a2: "\<forall>c \<in> set ''25000''. is_ascii c" by code_simp
  have d1: "\<forall>c \<in> set (''1234'' @ ''50''). is_digit c" by code_simp
  have d2: "\<forall>c \<in> set ''25000''. is_digit c \<or> c = CHR ''$'' \<or> c = CHR '',''" by code_simp
  have m1: "CHR ''-'' \<notin> set ''$1,234.50''" by simp
  have s1: "strip_currency ''$1,234.50'' = ''1234'' @ CHR ''.'' # ''50''"
    by (simp add: strip_currency_def)
  have i0: "0 < length ?cells" and i1: "1 < length ?cells" by simp_all
  have c0: "?cells ! 0 = Some ''$1,234.50''" and c1: "?cells ! 1 = Some ''25000''" by simp_all
  note q0 = each [rule_format, OF i0, THEN conjunct2, rule_format, OF conjI [OF c0 a1]]
  note q1 = each [rule_format, OF i1, THEN conjunct2, rule_format, OF conjI [OF c1 a2]]
  note r1 = q0 [THEN conjunct2, THEN conjunct1, rule_format, OF conjI [OF s1 d1]]
  note r3 = q0 [THEN conjunct2, THEN conjunct2, rule_format, OF m1]
  note r2 = q1 [THEN conjunct1, rule_format, OF d2 [rule_format]]
  from r1 have e1: "round64 (real_of_int (digits_value (''1234'' @ ''50'')) / 10 ^ length ''50'') = Fin (2469 / 2)"
    by (simp only: v nth_Cons_0)
  from r2 have e2: "round64 (real_of_int (digits_value ''25000'')) = Fin 25000"
    by (simp only: v nth_Cons_Suc nth_Cons_0 One_nat_def)
  from r3 have "Fin (2469 / 2) = NaN \<or> amount_le (Fin 0) (Fin (2469 / 2))"
    by (simp only: v nth_Cons_0)
  then have e3: "amount_le (Fin 0) (Fin (2469 / 2))"
    by (simp only: amount.distinct simp_thms)
  have colbad: "get_col ?bad ''award_amount'' = Inr (ObjS [Some ''$12.5k''])"
    by (simp add: get_col_def)
  have k: "\<forall>c \<in> set ''$12.5k''. is_ascii c" by code_simp
  have kb: "\<exists>c \<in> set ''$12.5k''. \<not> is_space c \<and> \<not> is_digit c \<and> c \<notin> set ''_.+-eE$,'' \<and>
                            c \<notin> set ''infatyINFATY''"
    by code_simp
  have mem: "Some ''$12.5k'' \<in> set [Some ''$12.5k'']" by simp
  note fails = load_data_award_amount [OF colbad, of iso_dates, THEN conjunct2, rule_format,
                 OF conjI [OF refl conjI [OF mem conjI [OF k disjI1 [OF kb]]]]]
  have bad: "load_data iso_dates (Inr ?bad) = Inl (ValueError ''12.5k'')"
    by (simp add: load_defs sc3 pf3 iso_date_examples)
  from fails bad have bad': "load_data iso_dates (Inr ?bad) = Inl (ValueError ''12.5k'')"
    by (elim exE)
  from col load e1 e2 e3 bad' show ?thesis by (intro conjI)
qed

lemma load_data_needs:
  assumes "load_data to_datetime (Inr df) = Inr df'"
  shows "(\<forall>c \<in> set [''action_date'', ''contract_start_date'', ''contract_end_date'',
                       ''award_amount'', ''awarding_agency_name'']. c \<in> set (columns df)) \<and>
         (\<forall>c \<in> set date_columns. \<forall>s. get_col df c = Inr s \<longrightarrow> (\<exists>t. to_datetime s = Inr t))"
proof -
  from load_data_success [OF assms] obtain s' ag where
    dates: "\<forall>c \<in> set date_columns. \<exists>s t. map_of df c = Some s \<and> to_datetime s = Inr t"
    and am: "\<exists>s. map_of df ''award_amount'' = Some s \<and> astype_float (replace_currency s) = Inr s'"
    and ag: "map_of df ''awarding_agency_name'' = Some ag"
    by fastforce
  from dates have d: "\<forall>c \<in> set date_columns. c \<in> set (columns df)"
    by (auto simp add: columns_map_of)
  from dates have p: "\<forall>c \<in> set date_columns. \<forall>s. get_col df c = Inr s \<longrightarrow> (\<exists>t. to_datetime s = Inr t)"
    by (fastforce simp add: get_col_Inr)
  from d am ag p show ?thesis
    by (auto simp add: columns_map_of date_columns_def)
qed

text \<open>
  Claim C9, amended: a missing file, a missing column among those the loader reads, a date
  column that \<open>to_datetime\<close> rejects and an amount that is no number each make the load
  fail as a whole (the result is the error, never a table); the page then consists of two
  error notices, the loader's with the error and the caller's fixed one, and of no filter,
  metric, chart, table or feed.
\<close>

theorem load_failure_fails_closed:
  "(csv = Inl e \<longrightarrow> load_data to_datetime csv = Inl e) \<and>
   (csv = Inr df \<and>
    c \<in> set [''action_date'', ''contract_start_date'', ''contract_end_date'',
              ''award_amount'', ''awarding_agency_name''] \<and>
    c \<notin> set (columns df) \<longrightarrow> (\<exists>e'. load_data to_datetime csv = Inl e')) \<and>
   (csv = Inr df \<and> d \<in> set date_columns \<and> get_col df d = Inr s \<and> to_datetime s = Inl e \<longrightarrow>
      (\<exists>e'. load_data to_datetime csv = Inl e')) \<and>
   (csv = Inr df \<and> get_col df ''award_amount'' = Inr (ObjS cells) \<and> Some t \<in> set cells \<and>
    py_float (strip_currency t) = None \<longrightarrow> (\<exists>e'. load_data to_datetime csv = Inl e')) \<and>
   (load_data to_datetime csv = Inl e \<longrightarrow>
      dashboard to_datetime csv sel =
        Inr [LoadErrorNotice e,
             ErrorNotice ''Unable to load data. Please check the data file and try again.''])"
proof (intro conjI impI)
  assume "csv = Inl e"
  then show "load_data to_datetime csv = Inl e"
    by (simp add: load_data_def and_then_def)
next
  assume a: "csv = Inr df \<and>
    c \<in> set [''action_date'', ''contract_start_date'', ''contract_end_date'',
              ''award_amount'', ''awarding_agency_name''] \<and>
    c \<notin> set (columns df)"
  show "\<exists>e'. load_data to_datetime csv = Inl e'"
  proof (rule not_Inr_is_Inl, rule allI, rule notI)
    fix df' assume "load_data to_datetime csv = Inr df'"
    with a have "load_data to_datetime (Inr df) = Inr df'" by simp
    from load_data_needs [OF this] a show False by blast
  qed
next
  assume a: "csv = Inr df \<and> d \<in> set date_columns \<and> get_col df d = Inr s \<and> to_datetime s = Inl e"
  show "\<exists>e'. load_data to_datetime csv = Inl e'"
  proof (rule not_Inr_is_Inl, rule allI, rule notI)
    fix df' assume "load_data to_datetime csv = Inr df'"
    with a have "load_data to_datetime (Inr df) = Inr df'" by simp
    from load_data_needs [OF this] a have "\<exists>t. to_datetime s = Inr t" by blast
    with a show False by simp
  qed
next
  assume a: "csv = Inr df \<and> get_col df ''award_amount'' = Inr (ObjS cells) \<and> Some t \<in> set cells \<and>
    py_float (strip_currency t) = None"
  then have "\<exists>e'. load_data to_datetime (Inr df) = Inl e'"
    using load_data_bad_amount by blast
  with a show "\<exists>e'. load_data to_datetime csv = Inl e'" by simp
next
  assume "load_data to_datetime csv = Inl e"
  then show "dashboard to_datetime csv sel =
        Inr [LoadErrorNotice e,
             ErrorNotice ''Unable to load data. Please check the data file and try again.'']"
    by (simp add: dashboard_def)
qed

text \<open>
  Claim C9 says that a failed load surfaces a single error message. The loader reports the
  error itself before it returns, and the caller reports once more: a missing file gives a
  page of two error notices.
\<close>

theorem load_failure_two_notices_counterexample:
  "dashboard Inr (Inl FileNotFoundError)
     \<lparr>date_range = (0, 0), selected_agency = ''All'', selected_size = ''All'', selected_themes = []\<rparr>
   = Inr [LoadErrorNotice FileNotFoundError,
          ErrorNotice ''Unable to load data. Please check the data file and try again.'']"
  by (simp add: dashboard_def load_data_def and_then_def)

theorem load_failure_fails_closed_witness:
  "load_data Inr (Inl FileNotFoundError) = Inl FileNotFoundError \<and>
   ''award_amount'' \<notin> set (columns [(''action_date'', DateS [Some 0])]) \<and>
   load_data Inr (Inr [(''action_date'', DateS [Some 0])]) = Inl (KeyError ''contract_start_date'') \<and>
   dashboard Inr (Inr [(''action_date'', DateS [Some 0])])
     \<lparr>date_range = (0, 0), selected_agency = ''All'', selected_size = ''All'', selected_themes = []\<rparr>
   = Inr [LoadErrorNotice (KeyError ''contract_start_date''),
          ErrorNotice ''Unable to load data. Please check the data file and try again.'']"
proof -
  let ?df = "[(''action_date'', DateS [Some 0])]"
  let ?sel = "\<lparr>date_range = (0, 0), selected_agency = ''All'', selected_size = ''All'', selected_themes = []\<rparr>"
  have a: "load_data Inr (Inl FileNotFoundError) = Inl FileNotFoundError"
    using load_failure_fails_closed [of "Inl FileNotFoundError" FileNotFoundError Inr] by blast
  have b: "''award_amount'' \<notin> set (columns ?df)"
    by (simp add: columns_def)
  have c: "load_data Inr (Inr ?df) = Inl (KeyError ''contract_start_date'')"
    by (simp add: load_defs)
  from load_failure_fails_closed [of "Inr ?df" "KeyError ''contract_start_date''" Inr _ _ _ _ _ _ ?sel] c
  have d: "dashboard Inr (Inr ?df) ?sel
     = Inr [LoadErrorNotice (KeyError ''contract_start_date''),
          ErrorNotice ''Unable to load data. Please check the data file and try again.'']"
    by blast
  from a b c d show ?thesis by blast
qed

end
